theory Spec2Isabelle
  imports Main
begin

section \<open>JavaScript strings\<close>

text \<open>
  A JavaScript string is a sequence of UTF-16 code units. A code unit is modelled as a
  natural number below 65536, so that the code units above 255 (which \<open>btoa\<close> rejects) and
  the surrogates (which \<open>encodeURIComponent\<close> rejects when unpaired) are values of the
  model. \<open>js\<close> turns an Isabelle literal into the string of the same ASCII characters.
\<close>

type_synonym jsstring = "nat list"

definition js :: "string \<Rightarrow> jsstring" where
  "js s = map of_char s"

text \<open>The exceptions the code can meet. \<open>OtherError\<close> stands for whatever else the
  platform (network stack, body reader, JSON parser) may throw.\<close>

datatype js_error = TypeError | SyntaxError | URIError | InvalidCharacterError | OtherError

definition bindE :: "js_error + 'a \<Rightarrow> ('a \<Rightarrow> js_error + 'b) \<Rightarrow> js_error + 'b" where
  "bindE m f = (case m of Inl e \<Rightarrow> Inl e | Inr v \<Rightarrow> f v)"

text \<open>\<open>String.prototype.startsWith\<close> and \<open>endsWith\<close>.\<close>

definition startsWith :: "jsstring \<Rightarrow> jsstring \<Rightarrow> bool" where
  "startsWith s p = (take (length p) s = p)"

definition endsWith :: "jsstring \<Rightarrow> jsstring \<Rightarrow> bool" where
  "endsWith s p = (length p \<le> length s \<and> drop (length s - length p) s = p)"

text \<open>\<open>s.split(c)\<close> for a separator of one code unit: the pieces between the
  occurrences of \<open>c\<close>; always at least one piece.\<close>

fun js_split :: "nat \<Rightarrow> jsstring \<Rightarrow> jsstring list" where
  "js_split c [] = [[]]"
| "js_split c (x # xs) =
     (if x = c then [] # js_split c xs
      else (case js_split c xs of
              [] \<Rightarrow> [[x]]
            | w # ws \<Rightarrow> (x # w) # ws))"

text \<open>\<open>a.join(sep)\<close> on an array of strings.\<close>

fun js_join :: "jsstring \<Rightarrow> jsstring list \<Rightarrow> jsstring" where
  "js_join sep [] = []"
| "js_join sep [x] = x"
| "js_join sep (x # y # ys) = x @ sep @ js_join sep (y # ys)"

text \<open>\<open>String.prototype.trim\<close> removes WhiteSpace and LineTerminator code points
  (ECMA-262) from both ends.\<close>

definition js_whitespace :: "nat \<Rightarrow> bool" where
  "js_whitespace c =
     (c = 9 \<or> c = 10 \<or> c = 11 \<or> c = 12 \<or> c = 13 \<or> c = 32 \<or> c = 160 \<or> c = 5760
      \<or> (8192 \<le> c \<and> c \<le> 8202) \<or> c = 8232 \<or> c = 8233 \<or> c = 8239 \<or> c = 8287
      \<or> c = 12288 \<or> c = 65279)"

definition trim :: "jsstring \<Rightarrow> jsstring" where
  "trim s = rev (dropWhile js_whitespace (rev (dropWhile js_whitespace s)))"

section \<open>Base64: \<open>btoa\<close> and \<open>atob\<close>\<close>

text \<open>The alphabet of RFC 4648: index to code unit, and back.\<close>

definition b64_char :: "nat \<Rightarrow> nat" where
  "b64_char i =
     (if i < 26 then 65 + i else if i < 52 then 71 + i else if i < 62 then i - 4
      else if i = 62 then 43 else 47)"

definition is_b64_char :: "nat \<Rightarrow> bool" where
  "is_b64_char c =
     ((65 \<le> c \<and> c \<le> 90) \<or> (97 \<le> c \<and> c \<le> 122) \<or> (48 \<le> c \<and> c \<le> 57) \<or> c = 43 \<or> c = 47)"

definition b64_index :: "nat \<Rightarrow> nat" where
  "b64_index c =
     (if 65 \<le> c \<and> c \<le> 90 then c - 65 else if 97 \<le> c \<and> c \<le> 122 then c - 71
      else if 48 \<le> c \<and> c \<le> 57 then c + 4 else if c = 43 then 62 else 63)"

text \<open>Three bytes become four characters; a last group of one or two bytes is padded
  with \<open>=\<close> (code unit 61).\<close>

fun b64_encode :: "nat list \<Rightarrow> jsstring" where
  "b64_encode (a # b # c # r) =
     b64_char (a div 4) # b64_char ((a mod 4) * 16 + b div 16)
       # b64_char ((b mod 16) * 4 + c div 64) # b64_char (c mod 64) # b64_encode r"
| "b64_encode [a, b] =
     [b64_char (a div 4), b64_char ((a mod 4) * 16 + b div 16), b64_char ((b mod 16) * 4), 61]"
| "b64_encode [a] = [b64_char (a div 4), b64_char ((a mod 4) * 16), 61, 61]"
| "b64_encode [] = []"

text \<open>\<open>btoa\<close> throws InvalidCharacterError when a code unit is above 255.\<close>

definition btoa :: "jsstring \<Rightarrow> js_error + jsstring" where
  "btoa s = (if list_all (\<lambda>u. u < 256) s then Inr (b64_encode s) else Inl InvalidCharacterError)"

text \<open>
  \<open>atob\<close> is the forgiving-base64 decode of the WHATWG Infra standard: ASCII whitespace is
  removed; if the length is then a multiple of four, one or two final \<open>=\<close> are removed; a
  length of remainder one, or any character outside the alphabet, is a failure; the
  sextets are decoded, and the 4 or 2 bits left over by a last group of two or three
  characters are dropped.
\<close>

definition ascii_whitespace :: "nat \<Rightarrow> bool" where
  "ascii_whitespace c = (c = 9 \<or> c = 10 \<or> c = 12 \<or> c = 13 \<or> c = 32)"

definition strip_padding :: "jsstring \<Rightarrow> jsstring" where
  "strip_padding d =
     (if length d mod 4 = 0 then
        (if endsWith d [61, 61] then take (length d - 2) d
         else if endsWith d [61] then take (length d - 1) d
         else d)
      else d)"

fun b64_decode :: "nat list \<Rightarrow> nat list" where
  "b64_decode (a # b # c # d # r) =
     (a * 4 + b div 16) # ((b mod 16) * 16 + c div 4) # ((c mod 4) * 64 + d) # b64_decode r"
| "b64_decode [a, b, c] = [a * 4 + b div 16, (b mod 16) * 16 + c div 4]"
| "b64_decode [a, b] = [a * 4 + b div 16]"
| "b64_decode [a] = []"
| "b64_decode [] = []"

definition atob :: "jsstring \<Rightarrow> js_error + jsstring" where
  "atob s =
     (let d = strip_padding (filter (\<lambda>c. \<not> ascii_whitespace c) s) in
      if length d mod 4 = 1 then Inl InvalidCharacterError
      else if list_ex (\<lambda>c. \<not> is_b64_char c) d then Inl InvalidCharacterError
      else Inr (b64_decode (map b64_index d)))"

section \<open>JSON values\<close>

text \<open>
  The values \<open>JSON.parse\<close> returns, and \<open>undefined\<close>. A number is an integer of
  magnitude at most \<open>2^53\<close> (9007199254740992): such an integer is a double, and
  JavaScript prints it by its decimal digits. A number with a fraction or an exponent,
  and a larger integer, which JavaScript prints as the shortest decimal that rounds to
  the same double, are outside the model. An object is the list of its own properties in
  enumeration order, each key once.
\<close>

datatype jsvalue =
    JUndefined
  | JNull
  | JBool bool
  | JNum int
  | JStr jsstring
  | JArr "jsvalue list"
  | JObj "(jsstring \<times> jsvalue) list"

fun truthy :: "jsvalue \<Rightarrow> bool" where
  "truthy JUndefined = False"
| "truthy JNull = False"
| "truthy (JBool b) = b"
| "truthy (JNum n) = (n \<noteq> 0)"
| "truthy (JStr s) = (s \<noteq> [])"
| "truthy (JArr xs) = True"
| "truthy (JObj kvs) = True"

text \<open>\<open>a || b\<close>.\<close>

definition js_or :: "jsvalue \<Rightarrow> jsvalue \<Rightarrow> jsvalue" where
  "js_or a b = (if truthy a then a else b)"

fun nullish :: "jsvalue \<Rightarrow> bool" where
  "nullish JUndefined = True"
| "nullish JNull = True"
| "nullish v = False"

text \<open>Decimal digits of a natural number, and \<open>Number.prototype.toString\<close> on an integer
  of magnitude at most \<open>2^53\<close>.\<close>

function dec :: "nat \<Rightarrow> jsstring" where
  "dec n = (if n < 10 then [48 + n] else dec (n div 10) @ [48 + n mod 10])"
  by pat_completeness auto
termination
  by (relation "measure id") auto

declare dec.simps [simp del]

definition Number_toString :: "int \<Rightarrow> jsstring" where
  "Number_toString i = (if i < 0 then 45 # dec (nat (- i)) else dec (nat i))"

text \<open>
  \<open>v?.k\<close> for a property name \<open>k\<close> that no built-in prototype defines (the code reads
  no other): \<open>undefined\<close> on \<open>null\<close> and \<open>undefined\<close>, the own property of an object,
  \<open>undefined\<close> on an array, a string, a number or a boolean. \<open>v.k\<close> is the same read,
  except that it throws a TypeError on \<open>null\<close> and \<open>undefined\<close>.
\<close>

fun opt_prop :: "jsvalue \<Rightarrow> jsstring \<Rightarrow> jsvalue" where
  "opt_prop (JObj kvs) k = (case map_of kvs k of Some v \<Rightarrow> v | None \<Rightarrow> JUndefined)"
| "opt_prop v k = JUndefined"

definition get_prop :: "jsvalue \<Rightarrow> jsstring \<Rightarrow> js_error + jsvalue" where
  "get_prop v k = (if nullish v then Inl TypeError else Inr (opt_prop v k))"

text \<open>\<open>v?.[i]\<close> and \<open>v[i]\<close>: an element of an array, a code unit of a string, the
  property of an object whose key is the decimal numeral.\<close>

fun opt_index :: "jsvalue \<Rightarrow> nat \<Rightarrow> jsvalue" where
  "opt_index (JArr xs) i = (if i < length xs then xs ! i else JUndefined)"
| "opt_index (JStr s) i = (if i < length s then JStr [s ! i] else JUndefined)"
| "opt_index (JObj kvs) i = (case map_of kvs (dec i) of Some v \<Rightarrow> v | None \<Rightarrow> JUndefined)"
| "opt_index v i = JUndefined"

definition get_index :: "jsvalue \<Rightarrow> nat \<Rightarrow> js_error + jsvalue" where
  "get_index v i = (if nullish v then Inl TypeError else Inr (opt_index v i))"

text \<open>\<open>delete v.k\<close>: a TypeError on \<open>null\<close> and \<open>undefined\<close>; the property leaves an
  object; every other value is unchanged.\<close>

fun delete_prop :: "jsvalue \<Rightarrow> jsstring \<Rightarrow> js_error + jsvalue" where
  "delete_prop JUndefined k = Inl TypeError"
| "delete_prop JNull k = Inl TypeError"
| "delete_prop (JObj kvs) k = Inr (JObj (filter (\<lambda>kv. fst kv \<noteq> k) kvs))"
| "delete_prop v k = Inr v"

subsection \<open>Code points\<close>

definition is_high :: "nat \<Rightarrow> bool" where
  "is_high u = (55296 \<le> u \<and> u \<le> 56319)"

definition is_low :: "nat \<Rightarrow> bool" where
  "is_low u = (56320 \<le> u \<and> u \<le> 57343)"

datatype code_point = Scalar nat | LoneSurrogate nat

text \<open>A string read by code points: a high surrogate followed by a low one is one code
  point, any other surrogate stands alone.\<close>

fun code_points :: "jsstring \<Rightarrow> code_point list" where
  "code_points [] = []"
| "code_points [u] = (if is_high u \<or> is_low u then [LoneSurrogate u] else [Scalar u])"
| "code_points (u # v # r) =
     (if is_high u \<and> is_low v then
        Scalar (65536 + (u - 55296) * 1024 + (v - 56320)) # code_points r
      else if is_high u \<or> is_low u then LoneSurrogate u # code_points (v # r)
      else Scalar u # code_points (v # r))"

fun utf16 :: "code_point \<Rightarrow> jsstring" where
  "utf16 (LoneSurrogate u) = [u]"
| "utf16 (Scalar c) =
     (if c < 65536 then [c]
      else [55296 + (c - 65536) div 1024, 56320 + (c - 65536) mod 1024])"

definition utf8 :: "nat \<Rightarrow> nat list" where
  "utf8 c =
     (if c < 128 then [c]
      else if c < 2048 then [192 + c div 64, 128 + c mod 64]
      else if c < 65536 then [224 + c div 4096, 128 + (c div 64) mod 64, 128 + c mod 64]
      else [240 + c div 262144, 128 + (c div 4096) mod 64, 128 + (c div 64) mod 64,
            128 + c mod 64])"

definition is_alnum :: "nat \<Rightarrow> bool" where
  "is_alnum c = ((48 \<le> c \<and> c \<le> 57) \<or> (65 \<le> c \<and> c \<le> 90) \<or> (97 \<le> c \<and> c \<le> 122))"

definition hex_upper :: "nat \<Rightarrow> nat" where
  "hex_upper n = (if n < 10 then 48 + n else 55 + n)"

definition hex_lower :: "nat \<Rightarrow> nat" where
  "hex_lower n = (if n < 10 then 48 + n else 87 + n)"

definition percent :: "nat \<Rightarrow> jsstring" where
  "percent b = [37, hex_upper (b div 16), hex_upper (b mod 16)]"

subsection \<open>\<open>ToString\<close>, \<open>JSON.stringify\<close>, URL encoding\<close>

fun sequenceE :: "(js_error + 'a) list \<Rightarrow> js_error + 'a list" where
  "sequenceE [] = Inr []"
| "sequenceE (m # ms) = bindE m (\<lambda>x. bindE (sequenceE ms) (\<lambda>xs. Inr (x # xs)))"

text \<open>
  \<open>ToString\<close>, as a template literal and \<open>encodeURIComponent\<close> apply it. An array is its
  elements joined by commas, \<open>null\<close> and \<open>undefined\<close> elements left empty. An object is
  \<open>[object Object]\<close>; an own property \<open>toString\<close>, which is never a function in a parsed
  value, hides \<open>Object.prototype.toString\<close>, and the conversion throws a TypeError.
\<close>

fun ToString :: "jsvalue \<Rightarrow> js_error + jsstring" where
  "ToString JUndefined = Inr (js ''undefined'')"
| "ToString JNull = Inr (js ''null'')"
| "ToString (JBool b) = Inr (if b then js ''true'' else js ''false'')"
| "ToString (JNum n) = Inr (Number_toString n)"
| "ToString (JStr s) = Inr s"
| "ToString (JArr xs) =
     bindE (sequenceE (map (\<lambda>x. if nullish x then Inr [] else ToString x) xs))
       (\<lambda>parts. Inr (js_join [44] parts))"
| "ToString (JObj kvs) =
     (if js ''toString'' \<in> set (map fst kvs) then Inl TypeError else Inr (js ''[object Object]''))"

text \<open>\<open>QuoteJSONString\<close>: a backslash (code unit 92) and a letter for backspace, tab,
  line feed, form feed and carriage return, a backslash before a double quote and a
  backslash, a backslash, \<open>u\<close> and four hexadecimal digits for the other control characters
  and for a lone surrogate, every other code point as it is.\<close>

definition hex4 :: "nat \<Rightarrow> jsstring" where
  "hex4 u = [hex_lower (u div 4096), hex_lower ((u div 256) mod 16), hex_lower ((u div 16) mod 16),
             hex_lower (u mod 16)]"

fun quote_code_point :: "code_point \<Rightarrow> jsstring" where
  "quote_code_point (LoneSurrogate u) = [92, 117] @ hex4 u"
| "quote_code_point (Scalar c) =
     (if c = 8 then [92, 98] else if c = 9 then [92, 116] else if c = 10 then [92, 110]
      else if c = 12 then [92, 102] else if c = 13 then [92, 114]
      else if c = 34 then [92, 34] else if c = 92 then [92, 92]
      else if c < 32 then [92, 117] @ hex4 c
      else utf16 (Scalar c))"

definition JSON_quote :: "jsstring \<Rightarrow> jsstring" where
  "JSON_quote s = [34] @ concat (map quote_code_point (code_points s)) @ [34]"

text \<open>\<open>JSON.stringify\<close>: \<open>None\<close> is the result \<open>undefined\<close>. A property whose value is
  \<open>undefined\<close> is left out of an object; in an array it is written \<open>null\<close>.\<close>

fun JSON_stringify :: "jsvalue \<Rightarrow> jsstring option" where
  "JSON_stringify JUndefined = None"
| "JSON_stringify JNull = Some (js ''null'')"
| "JSON_stringify (JBool b) = Some (if b then js ''true'' else js ''false'')"
| "JSON_stringify (JNum n) = Some (Number_toString n)"
| "JSON_stringify (JStr s) = Some (JSON_quote s)"
| "JSON_stringify (JArr xs) =
     Some ([91] @ js_join [44]
        (map (\<lambda>x. case JSON_stringify x of None \<Rightarrow> js ''null'' | Some t \<Rightarrow> t) xs) @ [93])"
| "JSON_stringify (JObj kvs) =
     Some ([123] @ js_join [44]
        (concat (map (\<lambda>kv. case JSON_stringify (snd kv) of
                               None \<Rightarrow> []
                             | Some t \<Rightarrow> [JSON_quote (fst kv) @ [58] @ t]) kvs)) @ [125])"

text \<open>\<open>encodeURIComponent\<close>: the UTF-8 bytes of every code point but the letters, the
  digits and \<open>- _ . ! ~ * ' ( )\<close> are percent-encoded; a lone surrogate is a URIError.\<close>

definition uri_unreserved :: "nat \<Rightarrow> bool" where
  "uri_unreserved c =
     (is_alnum c \<or> c = 45 \<or> c = 95 \<or> c = 46 \<or> c = 33 \<or> c = 126 \<or> c = 42 \<or> c = 39
      \<or> c = 40 \<or> c = 41)"

fun encode_code_point :: "code_point \<Rightarrow> js_error + jsstring" where
  "encode_code_point (LoneSurrogate u) = Inl URIError"
| "encode_code_point (Scalar c) =
     Inr (if uri_unreserved c then [c] else concat (map percent (utf8 c)))"

definition encodeURIComponent :: "jsstring \<Rightarrow> js_error + jsstring" where
  "encodeURIComponent s =
     bindE (sequenceE (map encode_code_point (code_points s))) (\<lambda>parts. Inr (concat parts))"

text \<open>
  \<open>URLSearchParams.prototype.toString\<close>, the application/x-www-form-urlencoded
  serializer: a lone surrogate becomes U+FFFD when the value is converted to a
  USVString; of the UTF-8 bytes, the letters, the digits and \<open>* - . _\<close> stay, a space
  becomes \<open>+\<close>, every other byte is percent-encoded.
\<close>

definition form_byte :: "nat \<Rightarrow> jsstring" where
  "form_byte b =
     (if b = 32 then [43]
      else if is_alnum b \<or> b = 42 \<or> b = 45 \<or> b = 46 \<or> b = 95 then [b]
      else percent b)"

fun usv_utf8 :: "code_point \<Rightarrow> nat list" where
  "usv_utf8 (LoneSurrogate u) = utf8 65533"
| "usv_utf8 (Scalar c) = utf8 c"

definition form_encode :: "jsstring \<Rightarrow> jsstring" where
  "form_encode s = concat (map form_byte (concat (map usv_utf8 (code_points s))))"

definition URLSearchParams_toString :: "(jsstring \<times> jsstring) list \<Rightarrow> jsstring" where
  "URLSearchParams_toString params =
     js_join [38] (map (\<lambda>p. form_encode (fst p) @ [61] @ form_encode (snd p)) params)"

section \<open>Source Fetcher: \<open>fetchSubscriptionNodes\<close>\<close>

text \<open>
  The outcome of \<open>fetch(subUrl, ...)\<close>: an exception (\<open>Inl\<close>: DNS failure, timeout,
  refused connection, malformed URL), or a response with its \<open>ok\<close> flag, its status and
  the outcome of \<open>response.text()\<close>, which can itself throw while the body is read.
  Logging with \<open>console.error\<close> is not modelled.
\<close>

datatype fetched = Fetched (resp_ok: bool) (resp_status: nat) (resp_text: "js_error + jsstring")

text \<open>\<open>subUrl.split(',')[1]\<close> handed to \<open>atob\<close>: the piece between the first and the
  second comma; when there is no comma it is \<open>undefined\<close>, which \<open>atob\<close> reads as the
  string \<open>undefined\<close>.\<close>

definition data_payload :: "jsstring \<Rightarrow> jsstring" where
  "data_payload subUrl =
     (case js_split 44 subUrl of
        _ # base64Content # _ \<Rightarrow> base64Content
      | _ \<Rightarrow> js ''undefined'')"

text \<open>\<open>t.split('\n').filter(line => line.trim() !== '')\<close>.\<close>

definition nonblank_lines :: "jsstring \<Rightarrow> jsstring list" where
  "nonblank_lines t = filter (\<lambda>line. trim line \<noteq> []) (js_split 10 t)"

text \<open>
  Lines 18-49. A link reference comes from the stored group, where it can be any JSON
  value: on a value that is not a string \<open>subUrl.startsWith\<close> is not a function, and the
  TypeError is thrown outside both \<open>try\<close> blocks. Inside them every exception ends in
  \<open>return []\<close>.
\<close>

definition fetchSubscriptionNodes ::
    "(jsstring \<Rightarrow> js_error + fetched) \<Rightarrow> jsvalue \<Rightarrow> js_error + jsstring list" where
  "fetchSubscriptionNodes fetch link =
     (case link of
        JStr subUrl \<Rightarrow>
          if startsWith subUrl (js ''data:'') then
            (case atob (data_payload subUrl) of
               Inr t \<Rightarrow> Inr (js_split 10 t)
             | Inl e \<Rightarrow> Inr [])
          else
            (case fetch subUrl of
               Inl error \<Rightarrow> Inr []
             | Inr response \<Rightarrow>
                 if \<not> resp_ok response then Inr []
                 else (case resp_text response of
                         Inl error \<Rightarrow> Inr []
                       | Inr text \<Rightarrow>
                           (case atob text of
                              Inr decoded \<Rightarrow> Inr (nonblank_lines decoded)
                            | Inl e \<Rightarrow> Inr (nonblank_lines text))))
      | _ \<Rightarrow> Inl TypeError)"

section \<open>The platform, the store and responses\<close>

text \<open>
  \<open>JSON.parse\<close> is a parameter of the model (\<open>Inl\<close> is the SyntaxError it throws), as is
  the text of an exception's \<open>message\<close>. The key-value namespace is a map from keys to
  stored strings, read unchanged during one request; \<open>get\<close> gives \<open>null\<close> for a key that
  is not there. The \<open>n\<close>-th \<open>fetch\<close> of a request has an outcome of its own, so that
  two fetches of one URL can differ.
\<close>

record platform =
  JSON_parse :: "jsstring \<Rightarrow> js_error + jsvalue"
  error_message :: "js_error \<Rightarrow> jsstring"

type_synonym kv_namespace = "jsstring \<rightharpoonup> jsstring"

type_synonym network = "nat \<Rightarrow> jsstring \<Rightarrow> js_error + fetched"

record response =
  status :: nat
  body :: jsstring
  headers :: "(jsstring \<times> jsstring) list"

section \<open>Aggregator: \<open>handleSubscription\<close>\<close>

text \<open>\<open>new Set(allNodes)\<close> spread into an array: a set keeps its elements in insertion
  order, and adding an element it already has changes nothing.\<close>

definition Set_add :: "'a list \<Rightarrow> 'a \<Rightarrow> 'a list" where
  "Set_add s x = (if x \<in> set s then s else s @ [x])"

definition new_Set :: "'a list \<Rightarrow> 'a list" where
  "new_Set xs = foldl Set_add [] xs"

definition feed_headers :: "(jsstring \<times> jsstring) list" where
  "feed_headers =
     [(js ''Content-Type'', js ''text/plain; charset=utf-8''),
      (js ''Cache-Control'', js ''no-store, no-cache, must-revalidate, proxy-revalidate''),
      (js ''Pragma'', js ''no-cache''),
      (js ''Expires'', js ''0'')]"

text \<open>Lines 153-161: the entries of all links, in the order of the links
  (\<open>Promise.all\<close> keeps it), without the empty strings, each once, joined and encoded.\<close>

definition aggregate :: "jsstring list list \<Rightarrow> js_error + jsstring" where
  "aggregate allNodesArrays =
     (let allNodes = filter (\<lambda>n. n \<noteq> []) (concat allNodesArrays);
          uniqueNodes = new_Set allNodes
      in btoa (js_join [10] uniqueNodes))"

text \<open>The \<open>try\<close> block, lines 150-168. \<open>subLinks.map\<close> is a function on an array only.\<close>

definition subscription_feed :: "platform \<Rightarrow> network \<Rightarrow> jsstring \<Rightarrow> js_error + response" where
  "subscription_feed P net groupDataStr =
     bindE (JSON_parse P groupDataStr) (\<lambda>groupData.
     bindE (get_prop groupData (js ''links'')) (\<lambda>links.
       (case js_or links (JArr []) of
          JArr subLinks \<Rightarrow>
            bindE (sequenceE (map (\<lambda>(i, link). fetchSubscriptionNodes (net i) link)
                                 (zip [0..<length subLinks] subLinks)))
              (\<lambda>allNodesArrays.
                 bindE (aggregate allNodesArrays)
                   (\<lambda>encoded. Inr \<lparr>status = 200, body = encoded, headers = feed_headers\<rparr>))
        | _ \<Rightarrow> Inl TypeError)))"

definition handleSubscription :: "platform \<Rightarrow> kv_namespace \<Rightarrow> network \<Rightarrow> jsstring \<Rightarrow> response" where
  "handleSubscription P kv net groupId =
     (if groupId = [] then
        \<lparr>status = 400, body = js ''Group ID is required.'', headers = []\<rparr>
      else
        (case kv (js ''SUBS_GROUP:'' @ groupId) of
           None \<Rightarrow>
             \<lparr>status = 404, body = js ''// Group not found or has no subscriptions.'',
              headers = [(js ''Content-Type'', js ''text/plain; charset=utf-8'')]\<rparr>
         | Some groupDataStr \<Rightarrow>
             if groupDataStr = [] then
               \<lparr>status = 404, body = js ''// Group not found or has no subscriptions.'',
                headers = [(js ''Content-Type'', js ''text/plain; charset=utf-8'')]\<rparr>
             else
               (case subscription_feed P net groupDataStr of
                  Inr r \<Rightarrow> r
                | Inl e \<Rightarrow>
                    \<lparr>status = 500, body = js ''// Error processing group: '' @ error_message P e,
                     headers = []\<rparr>)))"

section \<open>Config Importer: \<open>parseXrayConfig\<close>\<close>

text \<open>\<open>for (const x of v)\<close>: the elements of an array, the code points of a string; a
  TypeError on any other value.\<close>

fun js_iterate :: "jsvalue \<Rightarrow> js_error + jsvalue list" where
  "js_iterate (JArr xs) = Inr xs"
| "js_iterate (JStr s) = Inr (map (\<lambda>p. JStr (utf16 p)) (code_points s))"
| "js_iterate v = Inl TypeError"

text \<open>A loop that pushes the nodes of each element onto \<open>nodes\<close>; an exception ends it.\<close>

fun collect :: "('a \<Rightarrow> js_error + jsstring list) \<Rightarrow> 'a list \<Rightarrow> js_error + jsstring list" where
  "collect f [] = Inr []"
| "collect f (x # xs) = bindE (f x) (\<lambda>ns. bindE (collect f xs) (\<lambda>ms. Inr (ns @ ms)))"

text \<open>Lines 95-108: the descriptor of one server of a vmess outbound, and its link.\<close>

definition vmess_descriptor :: "jsvalue \<Rightarrow> jsvalue \<Rightarrow> jsvalue \<Rightarrow> js_error + jsvalue" where
  "vmess_descriptor outbound remark server =
     bindE (get_prop server (js ''remark'')) (\<lambda>server_remark.
     bindE (get_prop server (js ''address'')) (\<lambda>address.
     bindE (get_prop server (js ''port'')) (\<lambda>port.
     bindE (get_prop server (js ''users'')) (\<lambda>users.
     bindE (get_index users 0) (\<lambda>user.
     bindE (get_prop user (js ''id'')) (\<lambda>id.
     bindE (get_prop user (js ''alterId'')) (\<lambda>alterId.
     bindE (get_prop outbound (js ''streamSettings'')) (\<lambda>streamSettings.
       let wsSettings = opt_prop streamSettings (js ''wsSettings'');
           httpSettings = opt_prop streamSettings (js ''httpSettings'')
       in Inr (JObj
         [(js ''v'', JStr (js ''2'')),
          (js ''ps'', js_or server_remark remark),
          (js ''add'', address),
          (js ''port'', port),
          (js ''id'', id),
          (js ''aid'', alterId),
          (js ''net'', js_or (opt_prop streamSettings (js ''network'')) (JStr (js ''tcp''))),
          (js ''type'', JStr (js ''none'')),
          (js ''host'',
             js_or (opt_prop (opt_prop wsSettings (js ''headers'')) (js ''Host''))
               (js_or (opt_index (opt_prop httpSettings (js ''host'')) 0) (JStr []))),
          (js ''path'',
             js_or (opt_prop wsSettings (js ''path''))
               (js_or (opt_prop httpSettings (js ''path'')) (JStr []))),
          (js ''tls'',
             if opt_prop streamSettings (js ''security'') = JStr (js ''tls'')
             then JStr (js ''tls'') else JStr [])])))))))))"

definition vmess_node :: "jsvalue \<Rightarrow> jsvalue \<Rightarrow> jsvalue \<Rightarrow> js_error + jsstring list" where
  "vmess_node outbound remark server =
     bindE (vmess_descriptor outbound remark server) (\<lambda>vmess.
     bindE (btoa (case JSON_stringify vmess of Some t \<Rightarrow> t | None \<Rightarrow> js ''undefined''))
       (\<lambda>encoded. Inr [js ''vmess://'' @ encoded]))"

text \<open>Lines 112-122: the query and the link of one server of a vless outbound. Each
  value of the record given to \<open>URLSearchParams\<close> is converted with \<open>ToString\<close>; the
  path has been through \<open>encodeURIComponent\<close> before.\<close>

definition vless_params :: "jsvalue \<Rightarrow> jsvalue \<Rightarrow> js_error + (jsstring \<times> jsstring) list" where
  "vless_params outbound server =
     bindE (get_prop outbound (js ''streamSettings'')) (\<lambda>streamSettings.
     let wsSettings = opt_prop streamSettings (js ''wsSettings'') in
     bindE (ToString (js_or (opt_prop wsSettings (js ''path'')) (JStr []))) (\<lambda>path_string.
     bindE (encodeURIComponent path_string) (\<lambda>path.
     bindE (get_prop server (js ''users'')) (\<lambda>users.
     bindE (get_index users 0) (\<lambda>user.
     bindE (get_prop user (js ''flow'')) (\<lambda>flow.
     bindE (get_prop user (js ''encryption'')) (\<lambda>encryption.
     bindE (ToString (js_or (opt_prop streamSettings (js ''network'')) (JStr (js ''tcp'')))) (\<lambda>type_value.
     bindE (ToString (js_or (opt_prop streamSettings (js ''security'')) (JStr (js ''none'')))) (\<lambda>security_value.
     bindE (ToString (js_or (opt_prop (opt_prop wsSettings (js ''headers'')) (js ''Host'')) (JStr []))) (\<lambda>host_value.
     bindE (ToString (js_or flow (JStr []))) (\<lambda>flow_value.
     bindE (ToString (js_or encryption (JStr (js ''none'')))) (\<lambda>encryption_value.
       Inr [(js ''type'', type_value),
            (js ''security'', security_value),
            (js ''path'', path),
            (js ''host'', host_value),
            (js ''flow'', flow_value),
            (js ''encryption'', encryption_value)]))))))))))))"

definition vless_node :: "jsvalue \<Rightarrow> jsvalue \<Rightarrow> jsvalue \<Rightarrow> js_error + jsstring list" where
  "vless_node outbound remark server =
     bindE (vless_params outbound server) (\<lambda>params.
     bindE (get_prop server (js ''users'')) (\<lambda>users.
     bindE (get_index users 0) (\<lambda>user.
     bindE (get_prop user (js ''id'')) (\<lambda>id.
     bindE (ToString id) (\<lambda>id_string.
     bindE (get_prop server (js ''address'')) (\<lambda>address.
     bindE (ToString address) (\<lambda>address_string.
     bindE (get_prop server (js ''port'')) (\<lambda>port.
     bindE (ToString port) (\<lambda>port_string.
     bindE (get_prop server (js ''remark'')) (\<lambda>server_remark.
     bindE (ToString (js_or server_remark remark)) (\<lambda>name.
     bindE (encodeURIComponent name) (\<lambda>encoded_name.
       Inr [js ''vless://'' @ id_string @ js ''@'' @ address_string @ js '':'' @ port_string
            @ js ''?'' @ URLSearchParams_toString params @ js ''#'' @ encoded_name]))))))))))))"

text \<open>Lines 92-124: the body of the loop over the outbounds.\<close>

definition outbound_nodes :: "jsvalue \<Rightarrow> js_error + jsstring list" where
  "outbound_nodes outbound =
     bindE (get_prop outbound (js ''remark'')) (\<lambda>outbound_remark.
       let remark = js_or outbound_remark (JStr (js ''imported-node''));
           protocol = opt_prop outbound (js ''protocol'');
           vnext = opt_prop (opt_prop outbound (js ''settings'')) (js ''vnext'')
       in if protocol = JStr (js ''vmess'') \<and> truthy vnext then
            bindE (js_iterate vnext) (collect (vmess_node outbound remark))
          else if protocol = JStr (js ''vless'') \<and> truthy vnext then
            bindE (js_iterate vnext) (collect (vless_node outbound remark))
          else Inr [])"

text \<open>Lines 85-131. Whatever is thrown inside the \<open>try\<close> block gives the empty array.\<close>

definition parseXrayConfig :: "platform \<Rightarrow> jsstring \<Rightarrow> jsstring list" where
  "parseXrayConfig P configStr =
     (case bindE (JSON_parse P configStr) (\<lambda>config.
           bindE (get_prop config (js ''outbounds'')) (\<lambda>outbounds.
             if \<not> truthy outbounds then Inr []
             else (case outbounds of
                     JArr obs \<Rightarrow> collect outbound_nodes obs
                   | _ \<Rightarrow> Inr []))) of
        Inl e \<Rightarrow> []
      | Inr nodes \<Rightarrow> nodes)"

section \<open>Admin API: \<open>checkAuth\<close> and the \<open>getConfig\<close> action\<close>

text \<open>What the handlers read of a request: the method, the path of its URL, the
  \<open>Authorization\<close> header (\<open>None\<close> when absent) and the outcome of \<open>request.json()\<close>.\<close>

record request =
  req_method :: jsstring
  req_pathname :: jsstring
  req_authorization :: "jsstring option"
  req_json :: "js_error + jsvalue"

datatype auth_result = AuthSuccess | AuthFailure jsstring nat

text \<open>Lines 54-79. \<open>JSON.parse\<close> and the read of \<open>config.password\<close> are outside any
  \<open>try\<close> block: their exceptions leave the handler.\<close>

definition checkAuth :: "platform \<Rightarrow> kv_namespace \<Rightarrow> request \<Rightarrow> js_error + auth_result" where
  "checkAuth P kv req =
     bindE (case kv (js ''CONFIG'') of
              None \<Rightarrow> Inr (JObj [])
            | Some configStr \<Rightarrow> if configStr = [] then Inr (JObj []) else JSON_parse P configStr)
       (\<lambda>config.
     bindE (get_prop config (js ''password'')) (\<lambda>savedPassword.
       if \<not> truthy savedPassword then
         (if endsWith (req_pathname req) (js ''/getConfig'') then Inr AuthSuccess
          else if endsWith (req_pathname req) (js ''/saveConfig'') then Inr AuthSuccess
          else Inr (AuthFailure (js ''Not configured yet.'') 403))
       else
         (case req_authorization req of
            None \<Rightarrow> Inr (AuthFailure (js ''Authorization header is missing.'') 401)
          | Some authHeader \<Rightarrow>
              if authHeader = [] then Inr (AuthFailure (js ''Authorization header is missing.'') 401)
              else if \<not> startsWith authHeader (js ''Bearer '') then
                Inr (AuthFailure (js ''Authorization header is missing.'') 401)
              else if JStr (drop 7 authHeader) \<noteq> savedPassword then
                Inr (AuthFailure (js ''Invalid token.'') 401)
              else Inr AuthSuccess)))"

definition json_response :: "nat \<Rightarrow> jsvalue \<Rightarrow> response" where
  "json_response st v =
     \<lparr>status = st,
      body = (case JSON_stringify v of Some t \<Rightarrow> t | None \<Rightarrow> []),
      headers = [(js ''Content-Type'', js ''application/json'')]\<rparr>"

text \<open>
  \<open>handleAdminApi(request, env, 'getConfig')\<close>: lines 178-196 and, of the \<open>switch\<close>, the
  case of lines 218-223. \<open>Inl\<close> is an exception that leaves the handler.
\<close>

definition handleAdminApi_getConfig :: "platform \<Rightarrow> kv_namespace \<Rightarrow> request \<Rightarrow> js_error + response" where
  "handleAdminApi_getConfig P kv req =
     bindE (checkAuth P kv req) (\<lambda>authResult.
       (case authResult of
          AuthFailure message st \<Rightarrow>
            Inr (json_response st
                   (JObj [(js ''success'', JBool False), (js ''message'', JStr message)]))
        | AuthSuccess \<Rightarrow>
            (case (if req_method req = js ''POST'' then req_json req else Inr (JObj [])) of
               Inl e \<Rightarrow>
                 Inr (json_response 400
                        (JObj [(js ''success'', JBool False),
                               (js ''message'', JStr (js ''Invalid JSON body''))]))
             | Inr request_body \<Rightarrow>
                 bindE (JSON_parse P
                          (case kv (js ''CONFIG'') of
                             None \<Rightarrow> js ''{}''
                           | Some configStr \<Rightarrow> if configStr = [] then js ''{}'' else configStr))
                   (\<lambda>config.
                 bindE (delete_prop config (js ''password'')) (\<lambda>config_without.
                   let isConfigured =
                         (case kv (js ''CONFIG'') of None \<Rightarrow> False | Some c \<Rightarrow> c \<noteq> [])
                   in Inr (json_response 200
                             (JObj [(js ''success'', JBool True),
                                    (js ''data'', config_without),
                                    (js ''isConfigured'', JBool isConfigured)])))))))"

section \<open>Notions the properties are stated with\<close>

text \<open>The base64 encoding before its padding.\<close>

fun b64_body :: "nat list \<Rightarrow> jsstring" where
  "b64_body (a # b # c # r) =
     b64_char (a div 4) # b64_char ((a mod 4) * 16 + b div 16)
       # b64_char ((b mod 16) * 4 + c div 64) # b64_char (c mod 64) # b64_body r"
| "b64_body [a, b] =
     [b64_char (a div 4), b64_char ((a mod 4) * 16 + b div 16), b64_char ((b mod 16) * 4)]"
| "b64_body [a] = [b64_char (a div 4), b64_char ((a mod 4) * 16)]"
| "b64_body [] = []"

text \<open>The per-reference results of a list of string link references: what the
  \<open>i\<close>-th call of \<open>fetchSubscriptionNodes\<close> returns.\<close>

definition fetched_entries :: "network \<Rightarrow> jsstring list \<Rightarrow> jsstring list list" where
  "fetched_entries net urls =
     map (\<lambda>(i, u). case fetchSubscriptionNodes (net i) (JStr u) of Inr es \<Rightarrow> es | Inl e \<Rightarrow> [])
       (zip [0..<length urls] urls)"

text \<open>The elements of a list at the positions where they occur for the first time, in
  the order of these positions.\<close>

definition first_occurrences :: "'a list \<Rightarrow> 'a list" where
  "first_occurrences xs =
     map (\<lambda>i. xs ! i) (filter (\<lambda>i. xs ! i \<notin> set (take i xs)) [0..<length xs])"

text \<open>What claim C9 says of a \<open>data:\<close> reference: the whole substring after the first
  comma is decoded. It is compared with what the code does.\<close>

definition claimed_data_entries :: "jsstring \<Rightarrow> jsstring list" where
  "claimed_data_entries subUrl =
     (case atob (drop 1 (dropWhile (\<lambda>c. c \<noteq> 44) subUrl)) of
        Inr t \<Rightarrow> js_split 10 t
      | Inl e \<Rightarrow> [])"

text \<open>What claim C1 says of the output: the encoding of all fetched entries, each
  once. It is compared with what the code does.\<close>

definition claimed_output :: "network \<Rightarrow> jsstring list \<Rightarrow> js_error + jsstring" where
  "claimed_output net urls =
     btoa (js_join [10] (first_occurrences (concat (fetched_entries net urls))))"

text \<open>A platform for concrete inputs: its \<open>JSON.parse\<close> reads the one given text as the
  given value, and throws on any other.\<close>

definition example_platform :: "jsstring \<Rightarrow> jsvalue \<Rightarrow> platform" where
  "example_platform text v =
     \<lparr>JSON_parse = (\<lambda>s. if s = text then Inr v else Inl SyntaxError),
      error_message = (\<lambda>e. js ''error'')\<rparr>"

text \<open>An outbound that the importer passes over: a value with properties whose
  protocol is neither \<open>vmess\<close> nor \<open>vless\<close>.\<close>

definition other_protocol :: "jsvalue \<Rightarrow> bool" where
  "other_protocol outbound =
     (\<not> nullish outbound \<and> opt_prop outbound (js ''protocol'') \<noteq> JStr (js ''vmess'')
      \<and> opt_prop outbound (js ''protocol'') \<noteq> JStr (js ''vless''))"

text \<open>A platform whose \<open>JSON.parse\<close> reads two given texts.\<close>

definition example_platform2 :: "jsstring \<Rightarrow> jsvalue \<Rightarrow> jsstring \<Rightarrow> jsvalue \<Rightarrow> platform" where
  "example_platform2 text1 v1 text2 v2 =
     \<lparr>JSON_parse = (\<lambda>s. if s = text1 then Inr v1 else if s = text2 then Inr v2
                         else Inl SyntaxError),
      error_message = (\<lambda>e. js ''error'')\<rparr>"

subsection \<open>A reader of JSON text\<close>

text \<open>
  What a decoded payload says is stated with a reader of JSON text that is independent of
  \<open>JSON.stringify\<close>: the grammar of RFC 8259 without insignificant white space, with
  integers for numbers. A string is read character by character: a backslash starts an
  escape, \<open>u\<close> after it starts four hexadecimal digits.
\<close>

definition is_digit :: "nat \<Rightarrow> bool" where
  "is_digit c = (48 \<le> c \<and> c \<le> 57)"

definition hex_value :: "nat \<Rightarrow> nat option" where
  "hex_value c =
     (if 48 \<le> c \<and> c \<le> 57 then Some (c - 48)
      else if 97 \<le> c \<and> c \<le> 102 then Some (c - 87)
      else if 65 \<le> c \<and> c \<le> 70 then Some (c - 55)
      else None)"

definition unescape :: "nat \<Rightarrow> nat option" where
  "unescape c =
     (if c = 34 then Some 34 else if c = 92 then Some 92 else if c = 47 then Some 47
      else if c = 98 then Some 8 else if c = 102 then Some 12 else if c = 110 then Some 10
      else if c = 114 then Some 13 else if c = 116 then Some 9 else None)"

datatype read_mode = Plain | Escape | Hex nat nat

fun read_string :: "read_mode \<Rightarrow> jsstring \<Rightarrow> jsstring \<Rightarrow> (jsstring \<times> jsstring) option" where
  "read_string m acc [] = None"
| "read_string Plain acc (c # r) =
     (if c = 34 then Some (rev acc, r)
      else if c = 92 then read_string Escape acc r
      else if c < 32 then None
      else read_string Plain (c # acc) r)"
| "read_string Escape acc (c # r) =
     (if c = 117 then read_string (Hex 0 0) acc r
      else (case unescape c of
              None \<Rightarrow> None
            | Some u \<Rightarrow> read_string Plain (u # acc) r))"
| "read_string (Hex k v) acc (c # r) =
     (case hex_value c of
        None \<Rightarrow> None
      | Some h \<Rightarrow>
          if k = 3 then read_string Plain ((16 * v + h) # acc) r
          else read_string (Hex (Suc k) (16 * v + h)) acc r)"

text \<open>An integer: an optional minus sign and decimal digits, with no leading zero. A
  fraction or an exponent is left unread, and is then refused by what follows.\<close>

definition read_digits :: "jsstring \<Rightarrow> (nat \<times> jsstring) option" where
  "read_digits s =
     (let ds = takeWhile is_digit s in
      if ds = [] then None
      else if 1 < length ds \<and> hd ds = 48 then None
      else Some (foldl (\<lambda>a d. 10 * a + (d - 48)) 0 ds, dropWhile is_digit s))"

definition read_number :: "jsstring \<Rightarrow> (jsvalue \<times> jsstring) option" where
  "read_number s =
     (case s of
        [] \<Rightarrow> None
      | c # r \<Rightarrow>
          if c = 45 then map_option (\<lambda>p. (JNum (- int (fst p)), snd p)) (read_digits r)
          else map_option (\<lambda>p. (JNum (int (fst p)), snd p)) (read_digits s))"

text \<open>
  A value, the elements of an array after its opening bracket, and the members of an
  object after its opening brace. The first argument bounds the number of nested calls;
  twice the length of the text is enough for any text.
\<close>

fun read_value :: "nat \<Rightarrow> jsstring \<Rightarrow> (jsvalue \<times> jsstring) option"
  and read_elements :: "nat \<Rightarrow> jsstring \<Rightarrow> (jsvalue list \<times> jsstring) option"
  and read_members :: "nat \<Rightarrow> jsstring \<Rightarrow> ((jsstring \<times> jsvalue) list \<times> jsstring) option"
where
  "read_value 0 s = None"
| "read_value (Suc n) [] = None"
| "read_value (Suc n) (c # r) =
     (if c = 34 then map_option (\<lambda>p. (JStr (fst p), snd p)) (read_string Plain [] r)
      else if c = 91 then
        (case r of
           [] \<Rightarrow> None
         | d # r' \<Rightarrow>
             if d = 93 then Some (JArr [], r')
             else map_option (\<lambda>p. (JArr (fst p), snd p)) (read_elements n r))
      else if c = 123 then
        (case r of
           [] \<Rightarrow> None
         | d # r' \<Rightarrow>
             if d = 125 then Some (JObj [], r')
             else map_option (\<lambda>p. (JObj (fst p), snd p)) (read_members n r))
      else if c = 110 then
        (if startsWith (c # r) (js ''null'') then Some (JNull, drop 3 r) else None)
      else if c = 116 then
        (if startsWith (c # r) (js ''true'') then Some (JBool True, drop 3 r) else None)
      else if c = 102 then
        (if startsWith (c # r) (js ''false'') then Some (JBool False, drop 4 r) else None)
      else read_number (c # r))"
| "read_elements 0 s = None"
| "read_elements (Suc n) s =
     (case read_value n s of
        None \<Rightarrow> None
      | Some (v, r) \<Rightarrow>
          (case r of
             [] \<Rightarrow> None
           | c # r' \<Rightarrow>
               if c = 93 then Some ([v], r')
               else if c = 44 then map_option (\<lambda>p. (v # fst p, snd p)) (read_elements n r')
               else None))"
| "read_members 0 s = None"
| "read_members (Suc n) [] = None"
| "read_members (Suc n) (q # s) =
     (if q \<noteq> 34 then None
      else (case read_string Plain [] s of
              None \<Rightarrow> None
            | Some (k, r) \<Rightarrow>
                (case r of
                   [] \<Rightarrow> None
                 | colon # r1 \<Rightarrow>
                     if colon \<noteq> 58 then None
                     else (case read_value n r1 of
                             None \<Rightarrow> None
                           | Some (v, r2) \<Rightarrow>
                               (case r2 of
                                  [] \<Rightarrow> None
                                | c # r3 \<Rightarrow>
                                    if c = 125 then Some ([(k, v)], r3)
                                    else if c = 44 then
                                      map_option (\<lambda>p. ((k, v) # fst p, snd p)) (read_members n r3)
                                    else None)))))"

definition JSON_read :: "jsstring \<Rightarrow> jsvalue option" where
  "JSON_read t =
     (case read_value (2 * length t) t of
        None \<Rightarrow> None
      | Some (v, rest) \<Rightarrow> if rest = [] then Some v else None)"

text \<open>What \<open>JSON.stringify\<close> keeps of a value: a property whose value is \<open>undefined\<close> is
  left out, an array element that is \<open>undefined\<close> becomes \<open>null\<close>.\<close>

fun json_norm :: "jsvalue \<Rightarrow> jsvalue" where
  "json_norm (JArr xs) = JArr (map (\<lambda>x. if x = JUndefined then JNull else json_norm x) xs)"
| "json_norm (JObj kvs) =
     JObj (map (\<lambda>kv. (fst kv, json_norm (snd kv))) (filter (\<lambda>kv. snd kv \<noteq> JUndefined) kvs))"
| "json_norm v = v"

text \<open>The text after a number does not go on with a digit.\<close>

definition number_end :: "jsstring \<Rightarrow> bool" where
  "number_end rest = (case rest of [] \<Rightarrow> True | c # r \<Rightarrow> \<not> is_digit c)"

text \<open>The text of an array element and of an object member, and the statement that a
  value is read back from its text.\<close>

definition element_text :: "jsvalue \<Rightarrow> jsstring" where
  "element_text x = (case JSON_stringify x of None \<Rightarrow> js ''null'' | Some t \<Rightarrow> t)"

definition member_text :: "jsstring \<times> jsvalue \<Rightarrow> jsstring" where
  "member_text kv = JSON_quote (fst kv) @ 58 # element_text (snd kv)"

definition norm_element :: "jsvalue \<Rightarrow> jsvalue" where
  "norm_element x = (if x = JUndefined then JNull else json_norm x)"

definition reads_back :: "jsvalue \<Rightarrow> bool" where
  "reads_back v =
     (\<forall>n rest t. JSON_stringify v = Some t \<longrightarrow> list_all (\<lambda>u. u < 256) t \<longrightarrow> number_end rest
        \<longrightarrow> 2 * length (t @ rest) \<le> n \<longrightarrow> read_value n (t @ rest) = Some (json_norm v, rest))"

section \<open>Lemmas: base64\<close>

lemma b64_ranges:
  fixes i :: nat
  assumes "i < 64"
  obtains "i < 26" | "26 \<le> i" "i < 52" | "52 \<le> i" "i < 62" | "i = 62" | "i = 63"
  using assms by linarith

lemma b64_char_ok: "i < 64 \<Longrightarrow> is_b64_char (b64_char i)"
proof (erule b64_ranges)
  assume "i < 26" then show ?thesis by (simp add: is_b64_char_def b64_char_def)
next
  assume "26 \<le> i" "i < 52" then show ?thesis by (simp add: is_b64_char_def b64_char_def)
next
  assume "52 \<le> i" "i < 62" 
  then have "b64_char i = i - 4" "48 \<le> i - 4" "i - 4 \<le> 57" by (simp_all add: b64_char_def)
  then show ?thesis by (simp add: is_b64_char_def)
qed (simp_all add: is_b64_char_def b64_char_def)

lemma b64_index_char: "i < 64 \<Longrightarrow> b64_index (b64_char i) = i"
proof (erule b64_ranges)
  assume "52 \<le> i" "i < 62" 
  then have "b64_char i = i - 4" "48 \<le> i - 4" "i - 4 \<le> 57" "\<not> 65 \<le> i - 4" "\<not> 97 \<le> i - 4" "i - 4 + 4 = i"
    by (simp_all add: b64_char_def)
  then show ?thesis by (simp add: b64_index_def)
qed (simp_all add: b64_index_def b64_char_def)

lemma b64_char_not_ws: "is_b64_char c \<Longrightarrow> \<not> ascii_whitespace c"
  unfolding is_b64_char_def ascii_whitespace_def by linarith

lemma pad_not_b64: "\<not> is_b64_char 61"
  by (simp add: is_b64_char_def)

lemma sextet_bounds:
  fixes a b c :: nat
  assumes "a < 256" "b < 256" "c < 256"
  shows "a div 4 < 64" "(a mod 4) * 16 + b div 16 < 64" "(b mod 16) * 4 + c div 64 < 64"
    "c mod 64 < 64" "(a mod 4) * 16 < 64" "(b mod 16) * 4 < 64"
proof -
  show "a div 4 < 64" using assms by linarith
  have "a mod 4 < 4" "b div 16 < 16" "b mod 16 < 16" "c div 64 < 4" using assms by simp_all
  then show "(a mod 4) * 16 + b div 16 < 64" "(b mod 16) * 4 + c div 64 < 64" 
     "(a mod 4) * 16 < 64" "(b mod 16) * 4 < 64" by linarith+
  show "c mod 64 < 64" by simp
qed

lemma body_chars: "list_all (\<lambda>u. u < 256) s \<Longrightarrow> list_all is_b64_char (b64_body s)"
proof (induction s rule: b64_body.induct)
  case (1 a b c r)
  then show ?case using sextet_bounds[of a b c] by (simp add: b64_char_ok)
next
  case (2 a b)
  then show ?case using sextet_bounds[of a b 0] by (simp add: b64_char_ok)
next
  case (3 a)
  then show ?case using sextet_bounds[of a 0 0] by (simp add: b64_char_ok)
qed simp

lemma dec3:
  fixes a b c :: nat
  assumes "a < 256" "b < 256" "c < 256"
  shows "a div 4 * 4 + ((a mod 4) * 16 + b div 16) div 16 = a"
    "(((a mod 4) * 16 + b div 16) mod 16) * 16 + ((b mod 16) * 4 + c div 64) div 4 = b"
    "(((b mod 16) * 4 + c div 64) mod 4) * 64 + c mod 64 = c"
    "(((a mod 4) * 16 + b div 16) mod 16) * 16 + ((b mod 16) * 4) div 4 = b"
    "a div 4 * 4 + ((a mod 4) * 16) div 16 = a"
proof -
  have b: "b div 16 < 16" and c: "c div 64 < 4" using assms by simp_all
  have 1: "((a mod 4) * 16 + b div 16) div 16 = a mod 4" using b by simp
  have 2: "((a mod 4) * 16 + b div 16) mod 16 = b div 16" using b by simp
  have 3: "((b mod 16) * 4 + c div 64) div 4 = b mod 16" using c by simp
  have 4: "((b mod 16) * 4 + c div 64) mod 4 = c div 64" using c by simp
  show "a div 4 * 4 + ((a mod 4) * 16 + b div 16) div 16 = a" by (simp only: 1) simp
  show "(((a mod 4) * 16 + b div 16) mod 16) * 16 + ((b mod 16) * 4 + c div 64) div 4 = b"
    by (simp only: 2 3) simp
  show "(((b mod 16) * 4 + c div 64) mod 4) * 64 + c mod 64 = c" by (simp only: 4) simp
  show "(((a mod 4) * 16 + b div 16) mod 16) * 16 + ((b mod 16) * 4) div 4 = b"
    by (simp only: 2) simp
  show "a div 4 * 4 + ((a mod 4) * 16) div 16 = a" by simp
qed

lemma body_decode:
  "list_all (\<lambda>u. u < 256) s \<Longrightarrow> b64_decode (map b64_index (b64_body s)) = s"
proof (induction s rule: b64_body.induct)
  case (1 a b c r)
  then have lt: "a < 256" "b < 256" "c < 256" and r: "list_all (\<lambda>u. u < 256) r" by simp_all
  have i: "b64_index (b64_char (a div 4)) = a div 4"
    "b64_index (b64_char ((a mod 4) * 16 + b div 16)) = (a mod 4) * 16 + b div 16"
    "b64_index (b64_char ((b mod 16) * 4 + c div 64)) = (b mod 16) * 4 + c div 64"
    "b64_index (b64_char (c mod 64)) = c mod 64"
    using sextet_bounds[OF lt] by (simp_all only: b64_index_char)
  have "b64_decode (map b64_index (b64_body r)) = r" using 1 r by simp
  then show ?case by (simp only: b64_body.simps list.map i b64_decode.simps dec3[OF lt])
next
  case (2 a b)
  then have lt: "a < 256" "b < 256" by simp_all
  have i: "b64_index (b64_char (a div 4)) = a div 4"
    "b64_index (b64_char ((a mod 4) * 16 + b div 16)) = (a mod 4) * 16 + b div 16"
    "b64_index (b64_char ((b mod 16) * 4)) = (b mod 16) * 4"
    using sextet_bounds[OF lt, of 0] by (simp_all only: b64_index_char)
  show ?case by (simp only: b64_body.simps list.map i b64_decode.simps dec3[OF lt, of 0])
next
  case (3 a)
  then have lt: "a < 256" by simp
  have i: "b64_index (b64_char (a div 4)) = a div 4"
    "b64_index (b64_char ((a mod 4) * 16)) = (a mod 4) * 16"
    using sextet_bounds[OF lt, of 0 0] by (simp_all only: b64_index_char)
  show ?case by (simp only: b64_body.simps list.map i b64_decode.simps dec3[OF lt, of 0 0])
next
  case 4
  show ?case by simp
qed

lemma body_length: "length (b64_body s) mod 4 \<noteq> 1"
  by (induction s rule: b64_body.induct) simp_all

lemma encode_length: "length (b64_encode s) mod 4 = 0"
  by (induction s rule: b64_encode.induct) simp_all

lemma encode_cases:
  "b64_encode s = b64_body s \<and> (s = [] \<or> b64_body s \<noteq> [])
   \<or> b64_encode s = b64_body s @ [61] \<and> b64_body s \<noteq> []
   \<or> b64_encode s = b64_body s @ [61, 61] \<and> b64_body s \<noteq> []"
  by (induction s rule: b64_encode.induct) auto

lemma endsWith_iff: "endsWith xs p \<longleftrightarrow> (\<exists>ys. xs = ys @ p)"
proof
  assume "endsWith xs p"
  then have "drop (length xs - length p) xs = p" by (simp add: endsWith_def)
  then have "xs = take (length xs - length p) xs @ p"
    by (metis append_take_drop_id)
  then show "\<exists>ys. xs = ys @ p" ..
next
  assume "\<exists>ys. xs = ys @ p"
  then show "endsWith xs p" by (auto simp: endsWith_def)
qed

lemma endsWith_last: "endsWith xs p \<Longrightarrow> p \<noteq> [] \<Longrightarrow> xs \<noteq> [] \<and> last xs = last p"
  by (auto simp: endsWith_iff)

lemma body_last: "list_all (\<lambda>u. u < 256) s \<Longrightarrow> b64_body s \<noteq> [] \<Longrightarrow> last (b64_body s) \<noteq> 61"
proof -
  assume a: "list_all (\<lambda>u. u < 256) s" and n: "b64_body s \<noteq> []"
  have "list_all is_b64_char (b64_body s)" using a by (rule body_chars)
  then have "is_b64_char (last (b64_body s))" using n by (simp add: list_all_iff)
  then show ?thesis using pad_not_b64 by auto
qed

lemma strip_encode:
  assumes a: "list_all (\<lambda>u. u < 256) s"
  shows "strip_padding (b64_encode s) = b64_body s"
proof -
  note l = body_last[OF a]
  consider (A) "b64_encode s = b64_body s" "s = [] \<or> b64_body s \<noteq> []"
    | (B) "b64_encode s = b64_body s @ [61]" "b64_body s \<noteq> []"
    | (C) "b64_encode s = b64_body s @ [61, 61]" "b64_body s \<noteq> []"
    using encode_cases[of s] by blast
  then show ?thesis
  proof cases
    case A
    have "\<not> endsWith (b64_body s) [61]"
    proof
      assume e: "endsWith (b64_body s) [61]"
      from endsWith_last[OF e] have "b64_body s \<noteq> []" "last (b64_body s) = 61" by simp_all
      then show False using l by simp
    qed
    moreover have "\<not> endsWith (b64_body s) [61, 61]"
    proof
      assume e: "endsWith (b64_body s) [61, 61]"
      from endsWith_last[OF e] have "b64_body s \<noteq> []" "last (b64_body s) = 61" by simp_all
      then show False using l by simp
    qed
    ultimately show ?thesis using A by (simp add: strip_padding_def)
  next
    case B
    have "\<not> endsWith (b64_body s @ [61]) [61, 61]"
    proof
      assume "endsWith (b64_body s @ [61]) [61, 61]"
      then obtain ys where "b64_body s @ [61] = ys @ [61, 61]" by (auto simp: endsWith_iff)
      then have "b64_body s @ [61] = (ys @ [61]) @ [61]" by simp
      then have "b64_body s = ys @ [61]" by (simp only: append1_eq_conv)
      then have "last (b64_body s) = 61" by simp
      then show False using l B by simp
    qed
    moreover have "endsWith (b64_body s @ [61]) [61]" by (auto simp: endsWith_iff)
    moreover have "length (b64_encode s) mod 4 = 0" by (rule encode_length)
    ultimately show ?thesis by (simp add: strip_padding_def B)
  next
    case C
    have "endsWith (b64_body s @ [61, 61]) [61, 61]" by (auto simp: endsWith_iff)
    moreover have "length (b64_encode s) mod 4 = 0" by (rule encode_length)
    ultimately show ?thesis by (simp add: strip_padding_def C)
  qed
qed

lemma encode_no_ws:
  assumes a: "list_all (\<lambda>u. u < 256) s"
  shows "filter (\<lambda>c. \<not> ascii_whitespace c) (b64_encode s) = b64_encode s"
proof -
  have b: "list_all (\<lambda>c. \<not> ascii_whitespace c) (b64_body s)"
    using body_chars[OF a] b64_char_not_ws by (auto simp: list_all_iff)
  have p: "\<not> ascii_whitespace 61" by (simp add: ascii_whitespace_def)
  have "list_all (\<lambda>c. \<not> ascii_whitespace c) (b64_encode s)"
    using encode_cases[of s] b p by auto
  then show ?thesis by (simp add: list_all_iff)
qed

lemma atob_encode: "list_all (\<lambda>u. u < 256) s \<Longrightarrow> atob (b64_encode s) = Inr s"
proof -
  assume a: "list_all (\<lambda>u. u < 256) s"
  have "\<not> list_ex (\<lambda>c. \<not> is_b64_char c) (b64_body s)"
    using body_chars[OF a] by (simp add: list_all_iff list_ex_iff)
  then show ?thesis
    using body_length[of s]
    by (simp add: atob_def Let_def encode_no_ws[OF a] strip_encode[OF a] body_decode[OF a])
qed

lemma atob_btoa: "btoa s = Inr b \<Longrightarrow> atob b = Inr s"
  by (auto simp: btoa_def atob_encode split: if_splits)

section \<open>Lemmas: splitting, fetching, deduplication\<close>

lemma bindE_Inr [simp]: "bindE (Inr v) f = f v"
  by (simp add: bindE_def)

lemma bindE_Inl [simp]: "bindE (Inl e) f = Inl e"
  by (simp add: bindE_def)

lemma js_split_unfold:
  "js_split c s =
     takeWhile (\<lambda>x. x \<noteq> c) s
       # (if c \<in> set s then js_split c (tl (dropWhile (\<lambda>x. x \<noteq> c) s)) else [])"
proof (induction s)
  case Nil
  show ?case by simp
next
  case (Cons x xs)
  show ?case
  proof (cases "x = c")
    case True
    then show ?thesis by simp
  next
    case False
    then show ?thesis by (subst js_split.simps, subst Cons.IH) auto
  qed
qed

lemma data_payload_eq:
  "data_payload s =
     (if 44 \<in> set s then takeWhile (\<lambda>x. x \<noteq> 44) (tl (dropWhile (\<lambda>x. x \<noteq> 44) s))
      else js ''undefined'')"
  unfolding data_payload_def
  by (subst js_split_unfold, cases "44 \<in> set s") (simp_all, subst js_split_unfold, simp)

lemma atob_undefined: "atob (js ''undefined'') = Inl InvalidCharacterError"
  by (simp add: atob_def js_def strip_padding_def ascii_whitespace_def Let_def)

lemma fetch_string_total: "\<exists>es. fetchSubscriptionNodes fetch (JStr subUrl) = Inr es"
  unfolding fetchSubscriptionNodes_def by (simp split: sum.splits)

lemma sequenceE_map_Inr:
  "list_all (\<lambda>x. f x = Inr (g x)) xs \<Longrightarrow> sequenceE (map f xs) = Inr (map g xs)"
  by (induction xs) simp_all

lemma fetch_all_strings:
  "sequenceE (map (\<lambda>(i, link). fetchSubscriptionNodes (net i) link)
       (zip [0..<length urls] (map JStr urls))) = Inr (fetched_entries net urls)"
proof -
  let ?f = "\<lambda>(i, link). fetchSubscriptionNodes (net i) link"
  let ?g = "\<lambda>(i, link). case fetchSubscriptionNodes (net i) link of Inr es \<Rightarrow> es | Inl e \<Rightarrow> []"
  have z: "zip [0..<length urls] (map JStr urls) = map (\<lambda>(i, u). (i, JStr u)) (zip [0..<length urls] urls)"
    by (simp add: zip_map2)
  have "list_all (\<lambda>x. ?f x = Inr (?g x)) (zip [0..<length urls] (map JStr urls))"
  proof -
    have "?f (i, JStr u) = Inr (?g (i, JStr u))" for i u
      using fetch_string_total[of "net i" u] by auto
    then show ?thesis unfolding z by (auto simp: list_all_iff)
  qed
  then have "sequenceE (map ?f (zip [0..<length urls] (map JStr urls)))
      = Inr (map ?g (zip [0..<length urls] (map JStr urls)))"
    by (rule sequenceE_map_Inr)
  also have "map ?g (zip [0..<length urls] (map JStr urls)) = fetched_entries net urls"
    unfolding z fetched_entries_def by (simp add: case_prod_unfold comp_def)
  finally show ?thesis .
qed

lemma new_Set_snoc: "new_Set (xs @ [x]) = Set_add (new_Set xs) x"
  by (simp add: new_Set_def)

lemma set_new_Set: "set (new_Set xs) = set xs"
proof (induction xs rule: rev_induct)
  case Nil
  show ?case by (simp add: new_Set_def)
next
  case (snoc x xs)
  then show ?case by (auto simp: new_Set_snoc Set_add_def)
qed

lemma first_occurrences_snoc:
  "first_occurrences (xs @ [x]) = first_occurrences xs @ (if x \<in> set xs then [] else [x])"
proof -
  let ?p = "\<lambda>i. (xs @ [x]) ! i \<notin> set (take i (xs @ [x]))"
  have a: "filter ?p [0..<length xs] = filter (\<lambda>i. xs ! i \<notin> set (take i xs)) [0..<length xs]"
    by (rule filter_cong) (auto simp: nth_append)
  have b: "map (\<lambda>i. (xs @ [x]) ! i) (filter (\<lambda>i. xs ! i \<notin> set (take i xs)) [0..<length xs])
        = map (\<lambda>i. xs ! i) (filter (\<lambda>i. xs ! i \<notin> set (take i xs)) [0..<length xs])"
    by (rule map_cong) (auto simp: nth_append)
  have c: "?p (length xs) \<longleftrightarrow> x \<notin> set xs" by simp
  have "first_occurrences (xs @ [x])
      = map (\<lambda>i. (xs @ [x]) ! i) (filter ?p ([0..<length xs] @ [length xs]))"
    by (simp add: first_occurrences_def)
  also have "\<dots> = map (\<lambda>i. (xs @ [x]) ! i) (filter ?p [0..<length xs])
      @ map (\<lambda>i. (xs @ [x]) ! i) (filter ?p [length xs])"
    by (simp only: filter_append map_append)
  also have "map (\<lambda>i. (xs @ [x]) ! i) (filter ?p [0..<length xs]) = first_occurrences xs"
    by (simp only: a b first_occurrences_def)
  also have "map (\<lambda>i. (xs @ [x]) ! i) (filter ?p [length xs]) = (if x \<in> set xs then [] else [x])"
    using c by simp
  finally show ?thesis .
qed

lemma new_Set_first_occurrences: "new_Set xs = first_occurrences xs"
proof (induction xs rule: rev_induct)
  case Nil
  show ?case by (simp add: new_Set_def first_occurrences_def)
next
  case (snoc x xs)
  have "x \<in> set (new_Set xs) \<longleftrightarrow> x \<in> set xs" by (simp only: set_new_Set)
  then have "Set_add (new_Set xs) x = new_Set xs @ (if x \<in> set xs then [] else [x])"
    by (simp add: Set_add_def)
  then show ?case by (simp only: new_Set_snoc first_occurrences_snoc snoc.IH)
qed

lemma distinct_new_Set: "distinct (new_Set xs)"
proof (induction xs rule: rev_induct)
  case Nil
  show ?case by (simp add: new_Set_def)
next
  case (snoc x xs)
  then show ?case by (simp add: new_Set_snoc Set_add_def)
qed

lemma list_all_js_join:
  "list_all P sep \<Longrightarrow> list_all (list_all P) xs \<Longrightarrow> list_all P (js_join sep xs)"
  by (induction sep xs rule: js_join.induct) simp_all

lemma js_split_no_sep: "c \<notin> set s \<Longrightarrow> js_split c s = [s]"
  by (subst js_split_unfold) auto

lemma js_split_append: "c \<notin> set a \<Longrightarrow> js_split c (a @ c # b) = a # js_split c b"
proof -
  assume n: "c \<notin> set a"
  have t: "takeWhile (\<lambda>x. x \<noteq> c) (a @ c # b) = a" using n by (induction a) auto
  have d: "dropWhile (\<lambda>x. x \<noteq> c) (a @ c # b) = c # b" using n by (induction a) auto
  show ?thesis by (subst js_split_unfold) (simp add: t d)
qed

lemma trim_nonempty: "trim l \<noteq> [] \<Longrightarrow> l \<noteq> []"
  by (auto simp: trim_def)

lemma nonblank_two_lines:
  assumes "10 \<notin> set l1" "10 \<notin> set l2" "trim l1 \<noteq> []" "trim l2 \<noteq> []"
  shows "nonblank_lines (l1 @ [10] @ l2) = [l1, l2]"
  using assms by (simp add: nonblank_lines_def js_split_append js_split_no_sep)

lemma new_Set_two: "l1 \<noteq> l2 \<Longrightarrow> new_Set [l1, l2] = [l1, l2]"
  by (simp add: new_Set_def Set_add_def)

lemma feed_of_strings:
  assumes "JSON_parse P groupDataStr = Inr groupData"
    and "get_prop groupData (js ''links'') = Inr (JArr (map JStr urls))"
  shows "subscription_feed P net groupDataStr =
           bindE (aggregate (fetched_entries net urls))
             (\<lambda>encoded. Inr \<lparr>status = 200, body = encoded, headers = feed_headers\<rparr>)"
  using assms fetch_all_strings[of net urls]
  by (simp add: subscription_feed_def js_or_def)

lemma aggregate_latin1:
  assumes "list_all (list_all (\<lambda>u. u < 256)) (concat arrays)"
  shows "aggregate arrays =
     Inr (b64_encode (js_join [10] (first_occurrences (filter (\<lambda>n. n \<noteq> []) (concat arrays)))))"
proof -
  let ?ns = "filter (\<lambda>n. n \<noteq> []) (concat arrays)"
  have "list_all (list_all (\<lambda>u. u < 256)) (new_Set ?ns)"
    using assms by (auto simp: list_all_iff set_new_Set)
  then have "list_all (\<lambda>u. u < 256) (js_join [10] (new_Set ?ns))"
    by (intro list_all_js_join) simp_all
  then show ?thesis
    by (simp add: aggregate_def btoa_def new_Set_first_occurrences)
qed

lemma fetch_plain_two_lines:
  assumes "\<not> startsWith good (js ''data:'')"
    and "fetch good = Inr r" and "resp_ok r" and "resp_text r = Inr (l1 @ [10] @ l2)"
    and "atob (l1 @ [10] @ l2) = Inl e"
    and "10 \<notin> set l1" and "10 \<notin> set l2" and "trim l1 \<noteq> []" and "trim l2 \<noteq> []"
  shows "fetchSubscriptionNodes fetch (JStr good) = Inr [l1, l2]"
  using assms nonblank_two_lines[of l1 l2] by (simp add: fetchSubscriptionNodes_def)

lemma fetch_network_error:
  assumes "\<not> startsWith bad (js ''data:'')" and "fetch bad = Inl err"
  shows "fetchSubscriptionNodes fetch (JStr bad) = Inr []"
  using assms by (simp add: fetchSubscriptionNodes_def)

lemma aggregate_two_lines:
  assumes "l1 \<noteq> l2" and "trim l1 \<noteq> []" and "trim l2 \<noteq> []"
    and "list_all (\<lambda>u. u < 256) l1" and "list_all (\<lambda>u. u < 256) l2"
  shows "aggregate [[], [l1, l2]] = Inr (b64_encode (l1 @ [10] @ l2))"
    and "aggregate [[l1, l2], []] = Inr (b64_encode (l1 @ [10] @ l2))"
  using assms trim_nonempty[of l1] trim_nonempty[of l2]
  by (simp_all add: aggregate_def new_Set_two btoa_def)

section \<open>Lemmas: the importer and the admin API\<close>

lemma opt_prop_defined: "opt_prop v k \<noteq> JUndefined \<Longrightarrow> \<not> nullish v"
  by (cases v) simp_all

lemma opt_index_defined: "opt_index v i \<noteq> JUndefined \<Longrightarrow> \<not> nullish v"
  by (cases v) simp_all

lemma get_prop_defined: "\<not> nullish v \<Longrightarrow> get_prop v k = Inr (opt_prop v k)"
  by (simp add: get_prop_def)

lemma get_index_defined: "\<not> nullish v \<Longrightarrow> get_index v i = Inr (opt_index v i)"
  by (simp add: get_index_def)

lemma outbound_nodes_other: "other_protocol outbound \<Longrightarrow> outbound_nodes outbound = Inr []"
  by (simp add: other_protocol_def outbound_nodes_def get_prop_defined Let_def)

lemma collect_others: "list_all other_protocol obs \<Longrightarrow> collect outbound_nodes obs = Inr []"
  by (induction obs) (simp_all add: outbound_nodes_other)

lemma collect_append:
  "collect f xs = Inr a \<Longrightarrow> collect f ys = Inr b \<Longrightarrow> collect f (xs @ ys) = Inr (a @ b)"
proof (induction xs arbitrary: a)
  case Nil
  then show ?case by simp
next
  case (Cons x xs)
  then show ?case by (cases "f x"; cases "collect f xs") simp_all
qed

lemma JSON_stringify_object: "\<exists>t. JSON_stringify (JObj props) = Some t"
  by simp

lemma startsWith_append: "startsWith (p @ s) p"
  by (simp add: startsWith_def)

lemma bearer_nonempty: "js ''Bearer '' @ p \<noteq> []"
  by (simp add: js_def)

lemma bearer_length: "length (js ''Bearer '') = 7" "drop 7 (js ''Bearer '') = []"
  by (simp_all add: js_def)

lemma checkAuth_bearer:
  assumes "kv (js ''CONFIG'') = Some configStr" and "configStr \<noteq> []"
    and "JSON_parse P configStr = Inr (JObj props)"
    and "map_of props (js ''password'') = Some (JStr password)" and "password \<noteq> []"
    and "req_authorization req = Some (js ''Bearer '' @ password)"
  shows "checkAuth P kv req = Inr AuthSuccess"
  using assms
  by (simp add: checkAuth_def get_prop_def startsWith_append bearer_length bearer_nonempty)

lemma getConfig_authorized:
  assumes "kv (js ''CONFIG'') = Some configStr" and "configStr \<noteq> []"
    and "JSON_parse P configStr = Inr (JObj props)"
    and "map_of props (js ''password'') = Some (JStr password)" and "password \<noteq> []"
    and "req_authorization req = Some (js ''Bearer '' @ password)"
    and "req_method req = js ''POST'' \<longrightarrow> (\<exists>b. req_json req = Inr b)"
  shows "handleAdminApi_getConfig P kv req =
     Inr (json_response 200
            (JObj [(js ''success'', JBool True),
                   (js ''data'', JObj (filter (\<lambda>kv. fst kv \<noteq> js ''password'') props)),
                   (js ''isConfigured'', JBool True)]))"
proof -
  have b: "\<exists>b. (if req_method req = js ''POST'' then req_json req else Inr (JObj [])) = Inr b"
    using assms(7) by auto
  then obtain b where b: "(if req_method req = js ''POST'' then req_json req else Inr (JObj [])) = Inr b"
    by blast
  show ?thesis
    unfolding handleAdminApi_getConfig_def
      checkAuth_bearer[of kv configStr P props password req, OF assms(1-6)]
    using assms(1,2,3) b by (simp del: JSON_stringify.simps)
qed

section \<open>Lemmas: reading JSON text back\<close>

subsection \<open>Strings\<close>

lemma hex_value_lower: "d < 16 \<Longrightarrow> hex_value (hex_lower d) = Some d"
  unfolding hex_value_def hex_lower_def by (cases "d < 10") simp_all

lemma hex_digits:
  fixes u :: nat
  assumes "u < 65536"
  shows "u div 4096 < 16" "(u div 256) mod 16 < 16" "(u div 16) mod 16 < 16" "u mod 16 < 16"
    "16 * (16 * (16 * (u div 4096) + (u div 256) mod 16) + (u div 16) mod 16) + u mod 16 = u"
proof -
  show "u div 4096 < 16" using assms by simp
  show "(u div 256) mod 16 < 16" "(u div 16) mod 16 < 16" "u mod 16 < 16" by simp_all
  have a: "u div 256 = (u div 16) div 16" by (simp add: div_mult2_eq)
  have b: "u div 4096 = (u div 256) div 16" by (simp add: div_mult2_eq)
  have 1: "16 * (u div 4096) + (u div 256) mod 16 = u div 256" unfolding b by simp
  have 2: "16 * (u div 256) + (u div 16) mod 16 = u div 16" unfolding a by simp
  show "16 * (16 * (16 * (u div 4096) + (u div 256) mod 16) + (u div 16) mod 16) + u mod 16 = u"
    unfolding 1 2 by simp
qed

lemma read_hex4:
  assumes "u < 65536"
  shows "read_string (Hex 0 0) acc (hex4 u @ tail) = read_string Plain (u # acc) tail"
  using hex_digits[OF assms]
  by (simp add: hex4_def hex_value_lower)

lemma read_unit_lone:
  assumes "is_high u \<or> is_low u"
  shows "read_string Plain acc (quote_code_point (LoneSurrogate u) @ tail)
       = read_string Plain (u # acc) tail"
proof -
  have "u < 65536" using assms by (auto simp: is_high_def is_low_def)
  then show ?thesis by (simp add: read_hex4)
qed

lemma read_unit_scalar:
  assumes "list_all (\<lambda>x. x < 256) (quote_code_point (Scalar u))"
  shows "read_string Plain acc (quote_code_point (Scalar u) @ tail)
       = read_string Plain (u # acc) tail"
proof -
  consider (esc) "u = 8 \<or> u = 9 \<or> u = 10 \<or> u = 12 \<or> u = 13 \<or> u = 34 \<or> u = 92"
    | (ctl) "u < 32" "u \<noteq> 8" "u \<noteq> 9" "u \<noteq> 10" "u \<noteq> 12" "u \<noteq> 13"
    | (plain) "32 \<le> u" "u \<noteq> 34" "u \<noteq> 92"
    by linarith
  then show ?thesis
  proof cases
    case esc
    then show ?thesis by (auto simp: unescape_def)
  next
    case ctl
    then have "u < 65536" by simp
    then show ?thesis using ctl by (simp add: read_hex4)
  next
    case plain
    then have q: "quote_code_point (Scalar u) = utf16 (Scalar u)" by simp
    have "u < 65536"
    proof (rule ccontr)
      assume "\<not> u < 65536"
      then have "utf16 (Scalar u) = [55296 + (u - 65536) div 1024, 56320 + (u - 65536) mod 1024]"
        by simp
      then show False using assms unfolding q by simp
    qed
    then show ?thesis using plain unfolding q by simp
  qed
qed

lemma read_quoted_body:
  assumes "list_all (\<lambda>x. x < 256) (concat (map quote_code_point (code_points s)))"
  shows "read_string Plain acc (concat (map quote_code_point (code_points s)) @ 34 # rest)
       = Some (rev acc @ s, rest)"
  using assms
proof (induction s arbitrary: acc rule: code_points.induct)
  case 1
  show ?case by simp
next
  case (2 u)
  show ?case
  proof (cases "is_high u \<or> is_low u")
    case True
    then show ?thesis using read_unit_lone[OF True, of acc "34 # rest"] by simp
  next
    case False
    then have l: "list_all (\<lambda>x. x < 256) (quote_code_point (Scalar u))" using 2 by simp
    show ?thesis using False read_unit_scalar[OF l, of acc "34 # rest"] by simp
  qed
next
  case (3 u v r)
  show ?case
  proof (cases "is_high u \<and> is_low v")
    case True
    let ?c = "65536 + (u - 55296) * 1024 + (v - 56320)"
    have cp: "code_points (u # v # r) = Scalar ?c # code_points r" using True by simp
    have q: "quote_code_point (Scalar ?c) = utf16 (Scalar ?c)" by simp
    have "list_all (\<lambda>x. x < 256) (quote_code_point (Scalar ?c))"
      using 3(4) unfolding cp by simp
    then show ?thesis unfolding q by simp
  next
    case False
    show ?thesis
    proof (cases "is_high u \<or> is_low u")
      case True
      have cp: "code_points (u # v # r) = LoneSurrogate u # code_points (v # r)"
        using False True by auto
      have l: "list_all (\<lambda>x. x < 256) (concat (map quote_code_point (code_points (v # r))))"
        using 3(4) unfolding cp by simp
      have "read_string Plain acc
          (concat (map quote_code_point (code_points (u # v # r))) @ 34 # rest)
        = read_string Plain acc (quote_code_point (LoneSurrogate u)
            @ (concat (map quote_code_point (code_points (v # r))) @ 34 # rest))"
        unfolding cp by simp
      also have "\<dots> = read_string Plain (u # acc)
            (concat (map quote_code_point (code_points (v # r))) @ 34 # rest)"
        by (rule read_unit_lone[OF True])
      also have "\<dots> = Some (rev (u # acc) @ v # r, rest)"
        by (rule 3(2)[OF False True l])
      finally show ?thesis by simp
    next
      case nosur: False
      have cp: "code_points (u # v # r) = Scalar u # code_points (v # r)"
        using False nosur by auto
      have l: "list_all (\<lambda>x. x < 256) (concat (map quote_code_point (code_points (v # r))))"
        and lu: "list_all (\<lambda>x. x < 256) (quote_code_point (Scalar u))"
        using 3(4) unfolding cp by simp_all
      have "read_string Plain acc
          (concat (map quote_code_point (code_points (u # v # r))) @ 34 # rest)
        = read_string Plain acc (quote_code_point (Scalar u)
            @ (concat (map quote_code_point (code_points (v # r))) @ 34 # rest))"
        unfolding cp by simp
      also have "\<dots> = read_string Plain (u # acc)
            (concat (map quote_code_point (code_points (v # r))) @ 34 # rest)"
        by (rule read_unit_scalar[OF lu])
      also have "\<dots> = Some (rev (u # acc) @ v # r, rest)"
        by (rule 3(3)[OF False nosur l])
      finally show ?thesis by simp
    qed
  qed
qed

lemma read_JSON_quote:
  assumes "list_all (\<lambda>x. x < 256) (JSON_quote s)"
  shows "read_string Plain [] (tl (JSON_quote s) @ rest) = Some (s, rest)"
    and "hd (JSON_quote s) = 34"
  using assms read_quoted_body[of s "[]" rest] by (simp_all add: JSON_quote_def)

subsection \<open>Numbers\<close>

lemma dec_small: "n < 10 \<Longrightarrow> dec n = [48 + n]"
  by (subst dec.simps) simp

lemma dec_large: "\<not> n < 10 \<Longrightarrow> dec n = dec (n div 10) @ [48 + n mod 10]"
  by (subst dec.simps) simp

lemma dec_digits: "list_all is_digit (dec n) \<and> dec n \<noteq> []"
proof (induction n rule: dec.induct)
  case (1 n)
  show ?case
  proof (cases "n < 10")
    case True
    then show ?thesis by (simp add: dec_small is_digit_def)
  next
    case False
    have "n mod 10 < 10" by simp
    then have "is_digit (48 + n mod 10)" unfolding is_digit_def by linarith
    then show ?thesis using 1[OF False] by (simp add: dec_large[OF False])
  qed
qed

lemma dec_value: "foldl (\<lambda>a d. 10 * a + (d - 48)) 0 (dec n) = n"
proof (induction n rule: dec.induct)
  case (1 n)
  show ?case
  proof (cases "n < 10")
    case True
    then show ?thesis by (simp add: dec_small)
  next
    case False
    show ?thesis using 1[OF False] by (simp add: dec_large[OF False])
  qed
qed

lemma dec_leading: "1 < length (dec n) \<Longrightarrow> hd (dec n) \<noteq> 48"
proof (induction n rule: dec.induct)
  case (1 n)
  show ?case
  proof (cases "n < 10")
    case True
    then show ?thesis using 1(2) by (simp add: dec_small)
  next
    case False
    have ne: "dec (n div 10) \<noteq> []" using dec_digits by blast
    have h: "hd (dec n) = hd (dec (n div 10))" using ne by (simp add: dec_large[OF False])
    show ?thesis
    proof (cases "n div 10 < 10")
      case True
      have "0 < n div 10" using False by simp
      then show ?thesis unfolding h using True by (simp add: dec_small)
    next
      case big: False
      have "dec (n div 10 div 10) \<noteq> []" using dec_digits by blast
      then have "1 < length (dec (n div 10))" by (cases "dec (n div 10 div 10)") (simp_all add: dec_large[OF big])
      then show ?thesis unfolding h using 1(1)[OF False] by simp
    qed
  qed
qed

lemma take_digits:
  assumes "list_all is_digit ds" and "number_end rest"
  shows "takeWhile is_digit (ds @ rest) = ds" and "dropWhile is_digit (ds @ rest) = rest"
proof -
  have a: "\<And>x. x \<in> set ds \<Longrightarrow> is_digit x" using assms(1) by (simp add: list_all_iff)
  have t: "takeWhile is_digit rest = []" and d: "dropWhile is_digit rest = rest"
    using assms(2) by (cases rest; simp add: number_end_def)+
  show "takeWhile is_digit (ds @ rest) = ds" using a t by (simp add: takeWhile_append2)
  show "dropWhile is_digit (ds @ rest) = rest" using a d by (simp add: dropWhile_append2)
qed

lemma read_digits_dec:
  assumes "number_end rest"
  shows "read_digits (dec n @ rest) = Some (n, rest)"
  using dec_digits[of n] dec_leading[of n] dec_value[of n]
  by (auto simp: read_digits_def Let_def take_digits[OF _ assms])

lemma Number_toString_head:
  "Number_toString i \<noteq> [] \<and> (hd (Number_toString i) = 45 \<or> is_digit (hd (Number_toString i)))"
proof (cases "i < 0")
  case True
  then show ?thesis by (simp add: Number_toString_def)
next
  case False
  obtain d ds where "dec (nat i) = d # ds" using dec_digits[of "nat i"] by (cases "dec (nat i)") auto
  then show ?thesis using False dec_digits[of "nat i"] by (simp add: Number_toString_def)
qed

lemma read_number_toString:
  assumes "number_end rest"
  shows "read_number (Number_toString i @ rest) = Some (JNum i, rest)"
proof (cases "i < 0")
  case True
  then show ?thesis
    by (simp add: read_number_def Number_toString_def read_digits_dec[OF assms])
next
  case False
  obtain d ds where c: "dec (nat i) = d # ds" using dec_digits[of "nat i"] by (cases "dec (nat i)") auto
  have dg: "is_digit d" using dec_digits[of "nat i"] c by simp
  then have "d \<noteq> 45" by (auto simp: is_digit_def)
  moreover have "read_digits (d # ds @ rest) = Some (nat i, rest)"
    using read_digits_dec[OF assms, of "nat i"] c by simp
  ultimately show ?thesis using False c by (simp add: read_number_def Number_toString_def)
qed

lemma read_value_number:
  assumes "number_end rest"
  shows "read_value (Suc n) (Number_toString i @ rest) = Some (JNum i, rest)"
proof -
  obtain c r where t: "Number_toString i = c # r" and h: "c = 45 \<or> is_digit c"
    using Number_toString_head[of i] by (cases "Number_toString i") auto
  have "c \<noteq> 34" "c \<noteq> 91" "c \<noteq> 123" "c \<noteq> 110" "c \<noteq> 116" "c \<noteq> 102"
    using h by (auto simp: is_digit_def)
  then have "read_value (Suc n) ((c # r) @ rest) = read_number ((c # r) @ rest)" by simp
  then show ?thesis using read_number_toString[OF assms, of i] unfolding t by simp
qed

subsection \<open>Values\<close>

lemma stringify_None: "JSON_stringify v = None \<longleftrightarrow> v = JUndefined"
  by (cases v) simp_all

lemma number_end_simps [simp]:
  "number_end (44 # r)" "number_end (93 # r)" "number_end (125 # r)" "number_end []"
  by (simp_all add: number_end_def is_digit_def)

lemma latin1_join:
  "list_all P (js_join sep xs) \<Longrightarrow> list_all (list_all P) xs"
  by (induction sep xs rule: js_join.induct) simp_all

lemma read_null: "read_value (Suc n) (js ''null'' @ rest) = Some (JNull, rest)"
  by (simp add: js_def startsWith_def)

lemma read_true: "read_value (Suc n) (js ''true'' @ rest) = Some (JBool True, rest)"
  by (simp add: js_def startsWith_def)

lemma read_false: "read_value (Suc n) (js ''false'' @ rest) = Some (JBool False, rest)"
  by (simp add: js_def startsWith_def)

lemma read_value_string:
  assumes "list_all (\<lambda>u. u < 256) (JSON_quote s)"
  shows "read_value (Suc n) (JSON_quote s @ rest) = Some (JStr s, rest)"
proof -
  have l: "list_all (\<lambda>x. x < 256) (concat (map quote_code_point (code_points s)))"
    using assms by (simp add: JSON_quote_def)
  show ?thesis using read_quoted_body[OF l, of "[]" rest] by (simp add: JSON_quote_def)
qed

lemma element_text_head: "element_text x \<noteq> [] \<and> hd (element_text x) \<noteq> 93"
proof (cases x)
  case (JNum i)
  have "\<not> is_digit 93" "(93::nat) \<noteq> 45" by (simp_all add: is_digit_def)
  then show ?thesis using Number_toString_head[of i] JNum by (auto simp: element_text_def)
qed (simp_all add: element_text_def js_def JSON_quote_def)

lemma fuel_Suc: "2 * length (t @ rest) \<le> n \<Longrightarrow> t \<noteq> [] \<Longrightarrow> \<exists>k. n = Suc k \<and> 2 * length (t @ rest) \<le> Suc k"
  by (cases n; cases t) simp_all

lemma read_element:
  assumes ih: "x \<noteq> JUndefined \<Longrightarrow> reads_back x"
    and l: "list_all (\<lambda>u. u < 256) (element_text x)"
    and e: "number_end rest"
    and f: "2 * length (element_text x @ rest) \<le> n"
  shows "read_value n (element_text x @ rest) = Some (norm_element x, rest)"
proof (cases "x = JUndefined")
  case True
  then have t: "element_text x = js ''null''" by (simp add: element_text_def)
  obtain k where "n = Suc k" using f unfolding t by (cases n) (simp_all add: js_def)
  then show ?thesis using True unfolding t by (simp add: read_null norm_element_def)
next
  case False
  then obtain t where t: "JSON_stringify x = Some t" using stringify_None[of x] by (cases "JSON_stringify x") auto
  then have et: "element_text x = t" by (simp add: element_text_def)
  show ?thesis
    using ih[OF False] t l e f False unfolding et reads_back_def norm_element_def by simp
qed

lemma read_elements_texts:
  assumes ih: "\<And>x. x \<in> set xs \<Longrightarrow> x \<noteq> JUndefined \<Longrightarrow> reads_back x"
    and ne: "xs \<noteq> []"
    and l: "list_all (list_all (\<lambda>u. u < 256)) (map element_text xs)"
    and f: "2 * length (js_join [44] (map element_text xs) @ 93 # rest) + 1 \<le> m"
  shows "read_elements m (js_join [44] (map element_text xs) @ 93 # rest)
       = Some (map norm_element xs, rest)"
  using assms
proof (induction xs arbitrary: m)
  case Nil
  then show ?case by simp
next
  case (Cons x xs)
  obtain k where m: "m = Suc k" using Cons.prems(4) by (cases m) simp_all
  have lx: "list_all (\<lambda>u. u < 256) (element_text x)" using Cons.prems(3) by simp
  have ihx: "x \<noteq> JUndefined \<Longrightarrow> reads_back x" using Cons.prems(1) by simp
  show ?case
  proof (cases xs)
    case Nil
    have fk: "2 * length (element_text x @ 93 # rest) \<le> k"
      using Cons.prems(4) unfolding m Nil by simp
    have "read_value k (element_text x @ 93 # rest) = Some (norm_element x, 93 # rest)"
      by (rule read_element[OF ihx lx _ fk]) simp_all
    then show ?thesis unfolding m Nil by simp
  next
    case (Cons y ys)
    let ?more = "js_join [44] (map element_text xs) @ 93 # rest"
    have j: "js_join [44] (map element_text (x # xs)) @ 93 # rest
        = element_text x @ 44 # ?more"
      unfolding Cons by simp
    have fk: "2 * length (element_text x @ 44 # ?more) \<le> k"
      using Cons.prems(4) unfolding m j by simp
    have rv: "read_value k (element_text x @ 44 # ?more) = Some (norm_element x, 44 # ?more)"
      by (rule read_element[OF ihx lx _ fk]) simp_all
    have fm: "2 * length ?more + 1 \<le> k" using fk by simp
    have "read_elements k ?more = Some (map norm_element xs, rest)"
    proof (rule Cons.IH)
      show "\<And>x. x \<in> set xs \<Longrightarrow> x \<noteq> JUndefined \<Longrightarrow> reads_back x"
        using Cons.prems(1) by simp
      show "xs \<noteq> []" using Cons by simp
      show "list_all (list_all (\<lambda>u. u < 256)) (map element_text xs)" using Cons.prems(3) by simp
      show "2 * length ?more + 1 \<le> k" by (rule fm)
    qed
    then show ?thesis unfolding m j using rv by simp
  qed
qed

lemma read_members_texts:
  assumes ih: "\<And>kv. kv \<in> set ms \<Longrightarrow> reads_back (snd kv)"
    and ne: "ms \<noteq> []"
    and df: "list_all (\<lambda>kv. snd kv \<noteq> JUndefined) ms"
    and l: "list_all (list_all (\<lambda>u. u < 256)) (map member_text ms)"
    and f: "2 * length (js_join [44] (map member_text ms) @ 125 # rest) + 1 \<le> m"
  shows "read_members m (js_join [44] (map member_text ms) @ 125 # rest)
       = Some (map (\<lambda>kv. (fst kv, json_norm (snd kv))) ms, rest)"
  using assms
proof (induction ms arbitrary: m)
  case Nil
  then show ?case by simp
next
  case (Cons kv ms)
  obtain k where m: "m = Suc k" using Cons.prems(5) by (cases m) simp_all
  let ?body = "concat (map quote_code_point (code_points (fst kv)))"
  have mt: "member_text kv = 34 # ?body @ 34 # 58 # element_text (snd kv)"
    by (simp add: member_text_def JSON_quote_def)
  have lkv: "list_all (\<lambda>u. u < 256) (member_text kv)" using Cons.prems(4) by simp
  have lb: "list_all (\<lambda>u. u < 256) ?body" and lv: "list_all (\<lambda>u. u < 256) (element_text (snd kv))"
    using lkv unfolding mt by simp_all
  have dv: "snd kv \<noteq> JUndefined" using Cons.prems(3) by simp
  have ihv: "snd kv \<noteq> JUndefined \<Longrightarrow> reads_back (snd kv)" using Cons.prems(1) by simp
  have ne_v: "norm_element (snd kv) = json_norm (snd kv)" using dv by (simp add: norm_element_def)
  show ?case
  proof (cases ms)
    case Nil
    have j: "js_join [44] (map member_text (kv # ms)) @ 125 # rest
        = 34 # ?body @ 34 # 58 # element_text (snd kv) @ 125 # rest"
      unfolding Nil by (simp add: mt)
    have fk: "2 * length (element_text (snd kv) @ 125 # rest) \<le> k"
      using Cons.prems(5) unfolding m j by simp
    have rs: "read_string Plain [] (?body @ 34 # 58 # element_text (snd kv) @ 125 # rest)
        = Some (fst kv, 58 # element_text (snd kv) @ 125 # rest)"
      using read_quoted_body[OF lb, of "[]"] by simp
    have rv: "read_value k (element_text (snd kv) @ 125 # rest)
        = Some (json_norm (snd kv), 125 # rest)"
      unfolding ne_v[symmetric] by (rule read_element[OF ihv lv _ fk]) simp_all
    show ?thesis unfolding m j using rs rv Nil by simp
  next
    case (Cons kv' ms')
    let ?more = "js_join [44] (map member_text ms) @ 125 # rest"
    have j: "js_join [44] (map member_text (kv # ms)) @ 125 # rest
        = 34 # ?body @ 34 # 58 # element_text (snd kv) @ 44 # ?more"
      unfolding Cons by (simp add: mt)
    have fk: "2 * length (element_text (snd kv) @ 44 # ?more) \<le> k"
      using Cons.prems(5) unfolding m j by simp
    have rs: "read_string Plain [] (?body @ 34 # 58 # element_text (snd kv) @ 44 # ?more)
        = Some (fst kv, 58 # element_text (snd kv) @ 44 # ?more)"
      using read_quoted_body[OF lb, of "[]"] by simp
    have rv: "read_value k (element_text (snd kv) @ 44 # ?more)
        = Some (json_norm (snd kv), 44 # ?more)"
      unfolding ne_v[symmetric] by (rule read_element[OF ihv lv _ fk]) simp_all
    have fm: "2 * length ?more + 1 \<le> k" using fk by simp
    have "read_members k ?more = Some (map (\<lambda>kv. (fst kv, json_norm (snd kv))) ms, rest)"
    proof (rule Cons.IH)
      show "\<And>kv. kv \<in> set ms \<Longrightarrow> reads_back (snd kv)" using Cons.prems(1) by simp
      show "ms \<noteq> []" using Cons by simp
      show "list_all (\<lambda>kv. snd kv \<noteq> JUndefined) ms" using Cons.prems(3) by simp
      show "list_all (list_all (\<lambda>u. u < 256)) (map member_text ms)" using Cons.prems(4) by simp
      show "2 * length ?more + 1 \<le> k" by (rule fm)
    qed
    then show ?thesis unfolding m j using rs rv by simp
  qed
qed

lemma object_members:
  "concat (map (\<lambda>kv. case JSON_stringify (snd kv) of
                         None \<Rightarrow> []
                       | Some t \<Rightarrow> [JSON_quote (fst kv) @ [58] @ t]) kvs)
   = map member_text (filter (\<lambda>kv. snd kv \<noteq> JUndefined) kvs)"
proof (induction kvs)
  case Nil
  show ?case by simp
next
  case (Cons kv kvs)
  show ?case
  proof (cases "JSON_stringify (snd kv)")
    case None
    then have "snd kv = JUndefined" by (simp add: stringify_None)
    then show ?thesis using Cons None by simp
  next
    case (Some t)
    then have "snd kv \<noteq> JUndefined" using stringify_None[of "snd kv"] by auto
    then show ?thesis using Cons Some by (simp add: member_text_def element_text_def)
  qed
qed

lemma array_elements:
  "map (\<lambda>x. case JSON_stringify x of None \<Rightarrow> js ''null'' | Some t \<Rightarrow> t) xs = map element_text xs"
  by (simp add: element_text_def)

lemma json_norm_array: "json_norm (JArr xs) = JArr (map norm_element xs)"
  by (simp add: norm_element_def)

lemma member_text_head: "member_text kv \<noteq> [] \<and> hd (member_text kv) = 34"
  by (simp add: member_text_def JSON_quote_def)

lemma js_join_head: "xs \<noteq> [] \<Longrightarrow> hd xs \<noteq> [] \<Longrightarrow> js_join sep xs \<noteq> [] \<and> hd (js_join sep xs) = hd (hd xs)"
  by (induction sep xs rule: js_join.induct) simp_all

lemma reads_back_all: "reads_back v"
proof (induction v)
  case JUndefined
  show ?case by (simp add: reads_back_def)
next
  case JNull
  show ?case unfolding reads_back_def
  proof (intro allI impI)
    fix n rest t
    assume "JSON_stringify JNull = Some t" and f: "2 * length (t @ rest) \<le> n"
    then have t: "t = js ''null''" by simp
    obtain k where "n = Suc k" using f unfolding t by (cases n) (simp_all add: js_def)
    then show "read_value n (t @ rest) = Some (json_norm JNull, rest)"
      unfolding t by (simp add: read_null)
  qed
next
  case (JBool b)
  show ?case unfolding reads_back_def
  proof (intro allI impI)
    fix n rest t
    assume s: "JSON_stringify (JBool b) = Some t" and f: "2 * length (t @ rest) \<le> n"
    have "t \<noteq> []" using s by (cases b) (auto simp: js_def)
    then obtain k where "n = Suc k" using f by (cases n; cases t) simp_all
    then show "read_value n (t @ rest) = Some (json_norm (JBool b), rest)"
      using s by (cases b) (auto simp: read_true read_false)
  qed
next
  case (JNum i)
  show ?case unfolding reads_back_def
  proof (intro allI impI)
    fix n rest t
    assume s: "JSON_stringify (JNum i) = Some t" and e: "number_end rest"
      and f: "2 * length (t @ rest) \<le> n"
    have t: "t = Number_toString i" using s by simp
    have "t \<noteq> []" unfolding t using Number_toString_head by blast
    then obtain k where "n = Suc k" using f by (cases n; cases t) simp_all
    then show "read_value n (t @ rest) = Some (json_norm (JNum i), rest)"
      unfolding t by (simp add: read_value_number[OF e])
  qed
next
  case (JStr s)
  show ?case unfolding reads_back_def
  proof (intro allI impI)
    fix n rest t
    assume st: "JSON_stringify (JStr s) = Some t" and l: "list_all (\<lambda>u. u < 256) t"
      and f: "2 * length (t @ rest) \<le> n"
    have t: "t = JSON_quote s" using st by simp
    have "t \<noteq> []" unfolding t by (simp add: JSON_quote_def)
    then obtain k where "n = Suc k" using f by (cases n; cases t) simp_all
    then show "read_value n (t @ rest) = Some (json_norm (JStr s), rest)"
      using l unfolding t by (simp add: read_value_string)
  qed
next
  case (JArr xs)
  show ?case unfolding reads_back_def
  proof (intro allI impI)
    fix n rest t
    assume st: "JSON_stringify (JArr xs) = Some t" and l: "list_all (\<lambda>u. u < 256) t"
      and f: "2 * length (t @ rest) \<le> n"
    let ?body = "js_join [44] (map element_text xs)"
    have t: "t = 91 # ?body @ [93]" using st by (simp add: array_elements)
    obtain k where n: "n = Suc k" using f unfolding t by (cases n) simp_all
    show "read_value n (t @ rest) = Some (json_norm (JArr xs), rest)"
    proof (cases "xs = []")
      case True
      then show ?thesis unfolding t n by simp
    next
      case False
      have lb: "list_all (list_all (\<lambda>u. u < 256)) (map element_text xs)"
        using l unfolding t by (intro latin1_join[of _ "[44]"]) simp
      have fk: "2 * length (?body @ 93 # rest) + 1 \<le> k" using f unfolding t n by simp
      have re: "read_elements k (?body @ 93 # rest) = Some (map norm_element xs, rest)"
        by (rule read_elements_texts[OF JArr False lb fk])
      obtain x xs' where xs: "xs = x # xs'" using False by (cases xs) auto
      have "map element_text xs \<noteq> []" "hd (map element_text xs) \<noteq> []"
        "hd (hd (map element_text xs)) \<noteq> 93"
        using element_text_head[of x] unfolding xs by simp_all
      then have "?body \<noteq> []" "hd ?body \<noteq> 93" using js_join_head[of "map element_text xs" "[44]"] by simp_all
      then obtain c r where b: "?body = c # r" and c: "c \<noteq> 93" by (cases ?body) auto
      have "read_value (Suc k) (91 # (c # r) @ 93 # rest)
          = map_option (\<lambda>p. (JArr (fst p), snd p)) (read_elements k ((c # r) @ 93 # rest))"
        using c by simp
      then show ?thesis unfolding t n using re c unfolding b by (simp add: json_norm_array del: json_norm.simps)
    qed
  qed
next
  case (JObj kvs)
  show ?case unfolding reads_back_def
  proof (intro allI impI)
    fix n rest t
    assume st: "JSON_stringify (JObj kvs) = Some t" and l: "list_all (\<lambda>u. u < 256) t"
      and f: "2 * length (t @ rest) \<le> n"
    let ?ms = "filter (\<lambda>kv. snd kv \<noteq> JUndefined) kvs"
    let ?body = "js_join [44] (map member_text ?ms)"
    have t: "t = 123 # ?body @ [125]" using st by (simp add: object_members)
    obtain k where n: "n = Suc k" using f unfolding t by (cases n) simp_all
    have nm: "json_norm (JObj kvs) = JObj (map (\<lambda>kv. (fst kv, json_norm (snd kv))) ?ms)" by simp
    show "read_value n (t @ rest) = Some (json_norm (JObj kvs), rest)"
    proof (cases "?ms = []")
      case True
      then show ?thesis unfolding t n nm by simp
    next
      case False
      have ih: "\<And>kv. kv \<in> set ?ms \<Longrightarrow> reads_back (snd kv)"
      proof -
        fix kv assume "kv \<in> set ?ms"
        then have "kv \<in> set kvs" by simp
        then show "reads_back (snd kv)" by (rule JObj) (rule Basic_BNFs.snds.intros)
      qed
      have df: "list_all (\<lambda>kv. snd kv \<noteq> JUndefined) ?ms" by (simp add: list_all_iff)
      have lb: "list_all (list_all (\<lambda>u. u < 256)) (map member_text ?ms)"
        using l unfolding t by (intro latin1_join[of _ "[44]"]) simp
      have fk: "2 * length (?body @ 125 # rest) + 1 \<le> k" using f unfolding t n by simp
      have rm: "read_members k (?body @ 125 # rest)
          = Some (map (\<lambda>kv. (fst kv, json_norm (snd kv))) ?ms, rest)"
        by (rule read_members_texts[OF ih False df lb fk])
      obtain m ms' where ms: "?ms = m # ms'" using False by (cases ?ms) auto
      have "map member_text ?ms \<noteq> []" "hd (map member_text ?ms) \<noteq> []"
        "hd (hd (map member_text ?ms)) = 34"
        using member_text_head[of m] unfolding ms by simp_all
      then have "?body \<noteq> []" "hd ?body = 34" using js_join_head[of "map member_text ?ms" "[44]"] by simp_all
      then obtain c r where b: "?body = c # r" and c: "c \<noteq> 125" by (cases ?body) auto
      have "read_value (Suc k) (123 # (c # r) @ 125 # rest)
          = map_option (\<lambda>p. (JObj (fst p), snd p)) (read_members k ((c # r) @ 125 # rest))"
        using c by simp
      then show ?thesis unfolding t n nm using rm unfolding b by simp
    qed
  qed
qed

lemma JSON_read_stringify:
  assumes "JSON_stringify v = Some t" and "list_all (\<lambda>u. u < 256) t"
  shows "JSON_read t = Some (json_norm v)"
proof -
  have "reads_back v" by (rule reads_back_all)
  then have "JSON_stringify v = Some t \<longrightarrow> list_all (\<lambda>u. u < 256) t \<longrightarrow> number_end []
        \<longrightarrow> 2 * length (t @ []) \<le> 2 * length t
        \<longrightarrow> read_value (2 * length t) (t @ []) = Some (json_norm v, [])"
    unfolding reads_back_def by blast
  then have "read_value (2 * length t) t = Some (json_norm v, [])"
    using assms by simp
  then show ?thesis by (simp add: JSON_read_def)
qed

lemma map_of_defined:
  "map_of props k = Some v \<Longrightarrow> v \<noteq> JUndefined
   \<Longrightarrow> map_of (filter (\<lambda>kv. snd kv \<noteq> JUndefined) props) k = Some v"
  by (induction props) auto

lemma map_of_map_snd:
  "map_of (map (\<lambda>kv. (fst kv, f (snd kv))) xs) k = map_option f (map_of xs k)"
  by (induction xs) auto

lemma opt_prop_json_norm:
  assumes "opt_prop (JObj props) k = v" and "v \<noteq> JUndefined"
  shows "opt_prop (json_norm (JObj props)) k = json_norm v"
proof -
  have m: "map_of props k = Some v" using assms by (cases "map_of props k") auto
  have "map_of (filter (\<lambda>kv. snd kv \<noteq> JUndefined) props) k = Some v"
    using m assms(2) by (rule map_of_defined)
  then show ?thesis by (simp add: map_of_map_snd)
qed

section \<open>Evaluation on concrete inputs\<close>

lemmas b64_eval = atob_def btoa_def strip_padding_def endsWith_def ascii_whitespace_def
  is_b64_char_def b64_index_def b64_char_def Let_def

lemmas str_eval = js_def startsWith_def trim_def js_whitespace_def nonblank_lines_def
  data_payload_def

lemmas agg_eval = handleSubscription_def subscription_feed_def aggregate_def
  fetchSubscriptionNodes_def get_prop_def js_or_def new_Set_def Set_add_def example_platform_def
  fetched_entries_def

lemmas json_eval = get_prop_def get_index_def js_or_def JSON_quote_def is_high_def is_low_def
  Number_toString_def dec.simps hex4_def hex_lower_def

lemmas url_eval = encodeURIComponent_def URLSearchParams_toString_def form_encode_def
  form_byte_def percent_def hex_upper_def utf8_def is_alnum_def uri_unreserved_def

lemmas import_eval = parseXrayConfig_def outbound_nodes_def vmess_node_def vmess_descriptor_def
  vless_node_def vless_params_def example_platform_def

lemmas read_fuel_numeral =
  read_value.simps(2,3)[of "pred_numeral k", folded numeral_eq_Suc]
  read_elements.simps(2)[of "pred_numeral k", folded numeral_eq_Suc]
  read_members.simps(2,3)[of "pred_numeral k", folded numeral_eq_Suc]
  for k

lemmas read_eval = read_fuel_numeral JSON_read_def read_digits_def read_number_def is_digit_def
  hex_value_def unescape_def

section \<open>The Source Fetcher\<close>

text \<open>
  Claim C3, as stated: a remote source that returns a plain text and one that returns the
  base64 encoding of the same text contribute the same entries. It fails for a text that
  is itself valid base64: the body \<open>abcd\<close> is decoded to three bytes, while its encoding
  \<open>YWJjZA==\<close> gives the line \<open>abcd\<close>.
\<close>

theorem C3_counterexample:
  "btoa (js ''abcd'') = Inr (js ''YWJjZA=='')
   \<and> fetchSubscriptionNodes (\<lambda>u. Inr (Fetched True 200 (Inr (js ''abcd'')))) (JStr (js ''https://a.example/plain''))
      \<noteq> fetchSubscriptionNodes (\<lambda>u. Inr (Fetched True 200 (Inr (js ''YWJjZA=='')))) (JStr (js ''https://a.example/encoded''))"
  by (simp add: fetchSubscriptionNodes_def str_eval b64_eval)

text \<open>
  Claim C3, amended: when the plain text is not itself decodable as base64 (\<open>atob\<close>
  throws on it), a successful response with the text and a successful response with its
  base64 encoding contribute the same entries, the non-blank lines of the text.
\<close>

theorem C3_plain_and_encoded_agree:
  assumes "btoa text = Inr encoded" and "atob text = Inl e"
    and "\<not> startsWith url1 (js ''data:'')" and "\<not> startsWith url2 (js ''data:'')"
    and "fetch1 url1 = Inr r1" and "resp_ok r1" and "resp_text r1 = Inr text"
    and "fetch2 url2 = Inr r2" and "resp_ok r2" and "resp_text r2 = Inr encoded"
  shows "fetchSubscriptionNodes fetch1 (JStr url1) = Inr (nonblank_lines text)
       \<and> fetchSubscriptionNodes fetch2 (JStr url2) = Inr (nonblank_lines text)"
  using assms atob_btoa[OF assms(1)] unfolding fetchSubscriptionNodes_def by simp

theorem C3_plain_and_encoded_agree_witness:
  "btoa (js ''ss://a'' @ [10] @ js ''ss://b'') = Inr (js ''c3M6Ly9hCnNzOi8vYg=='')
   \<and> atob (js ''ss://a'' @ [10] @ js ''ss://b'') = Inl InvalidCharacterError
   \<and> fetchSubscriptionNodes (\<lambda>u. Inr (Fetched True 200 (Inr (js ''ss://a'' @ [10] @ js ''ss://b''))))
         (JStr (js ''https://a.example/plain'')) = Inr [js ''ss://a'', js ''ss://b'']
   \<and> fetchSubscriptionNodes (\<lambda>u. Inr (Fetched True 200 (Inr (js ''c3M6Ly9hCnNzOi8vYg==''))))
         (JStr (js ''https://a.example/encoded'')) = Inr [js ''ss://a'', js ''ss://b'']"
proof -
  let ?t = "js ''ss://a'' @ [10] @ js ''ss://b''"
  have b: "btoa ?t = Inr (js ''c3M6Ly9hCnNzOi8vYg=='')" by (simp add: str_eval b64_eval)
  have a: "atob ?t = Inl InvalidCharacterError" by (simp add: str_eval b64_eval)
  have n1: "\<not> startsWith (js ''https://a.example/plain'') (js ''data:'')" by (simp add: str_eval)
  have n2: "\<not> startsWith (js ''https://a.example/encoded'') (js ''data:'')" by (simp add: str_eval)
  have l: "nonblank_lines ?t = [js ''ss://a'', js ''ss://b'']" by (simp add: str_eval)
  show ?thesis
    using C3_plain_and_encoded_agree[OF b a n1 n2,
        of "\<lambda>u. Inr (Fetched True 200 (Inr ?t))" "Fetched True 200 (Inr ?t)"
           "\<lambda>u. Inr (Fetched True 200 (Inr (js ''c3M6Ly9hCnNzOi8vYg=='')))"
           "Fetched True 200 (Inr (js ''c3M6Ly9hCnNzOi8vYg==''))"]
      b a
    by (simp only: l fetched.sel simp_thms)
qed

text \<open>
  Claim C4: for a link reference that is a string, \<open>fetchSubscriptionNodes\<close> never
  raises, and it returns the empty sequence when the payload of a \<open>data:\<close> reference
  cannot be decoded, when \<open>fetch\<close> throws, when the response is not ok, and when reading
  the body throws.
\<close>

theorem C4_fetch_never_raises:
  "(\<exists>es. fetchSubscriptionNodes fetch (JStr subUrl) = Inr es)
   \<and> (startsWith subUrl (js ''data:'') \<and> atob (data_payload subUrl) = Inl e
        \<longrightarrow> fetchSubscriptionNodes fetch (JStr subUrl) = Inr [])
   \<and> (\<not> startsWith subUrl (js ''data:'') \<and> fetch subUrl = Inl e
        \<longrightarrow> fetchSubscriptionNodes fetch (JStr subUrl) = Inr [])
   \<and> (\<not> startsWith subUrl (js ''data:'') \<and> fetch subUrl = Inr r \<and> \<not> resp_ok r
        \<longrightarrow> fetchSubscriptionNodes fetch (JStr subUrl) = Inr [])
   \<and> (\<not> startsWith subUrl (js ''data:'') \<and> fetch subUrl = Inr r \<and> resp_ok r
          \<and> resp_text r = Inl e
        \<longrightarrow> fetchSubscriptionNodes fetch (JStr subUrl) = Inr [])"
  unfolding fetchSubscriptionNodes_def by (simp split: sum.splits)

theorem C4_fetch_never_raises_witness:
  "fetchSubscriptionNodes (\<lambda>u. Inl OtherError) (JStr (js ''data:text/plain;base64,@@@'')) = Inr []
   \<and> fetchSubscriptionNodes (\<lambda>u. Inl OtherError) (JStr (js ''https://example.org/feed'')) = Inr []
   \<and> fetchSubscriptionNodes (\<lambda>u. Inr (Fetched False 503 (Inr (js ''QQ=='')))) (JStr (js ''https://example.org/feed'')) = Inr []
   \<and> fetchSubscriptionNodes (\<lambda>u. Inr (Fetched True 200 (Inl OtherError))) (JStr (js ''https://example.org/feed'')) = Inr []"
proof -
  have d: "startsWith (js ''data:text/plain;base64,@@@'') (js ''data:'')" by (simp add: str_eval b64_eval)
  have a: "atob (data_payload (js ''data:text/plain;base64,@@@'')) = Inl InvalidCharacterError"
    by (simp add: str_eval b64_eval)
  have n: "\<not> startsWith (js ''https://example.org/feed'') (js ''data:'')" by (simp add: str_eval b64_eval)
  show ?thesis
    using C4_fetch_never_raises[of "\<lambda>u. Inl OtherError" "js ''data:text/plain;base64,@@@''" InvalidCharacterError]
      C4_fetch_never_raises[of "\<lambda>u. Inl OtherError" "js ''https://example.org/feed''" OtherError]
      C4_fetch_never_raises[of "\<lambda>u. Inr (Fetched False 503 (Inr (js ''QQ=='')))" "js ''https://example.org/feed''" OtherError "Fetched False 503 (Inr (js ''QQ==''))"]
      C4_fetch_never_raises[of "\<lambda>u. Inr (Fetched True 200 (Inl OtherError))" "js ''https://example.org/feed''" OtherError "Fetched True 200 (Inl OtherError)"]
      d a n
    by simp
qed

text \<open>
  Claim C9, as stated: a \<open>data:\<close> reference is decoded from the whole substring after
  its first comma. With a second comma the code decodes only the piece between the two:
  \<open>data:text/plain;base64,QQ==,Qg==\<close> gives the entry \<open>A\<close>, where decoding
  \<open>QQ==,Qg==\<close> would fail and give no entry.
\<close>

theorem C9_counterexample:
  "fetchSubscriptionNodes (\<lambda>u. Inl OtherError) (JStr (js ''data:text/plain;base64,QQ==,Qg==''))
     \<noteq> Inr (claimed_data_entries (js ''data:text/plain;base64,QQ==,Qg==''))"
  by (simp add: fetchSubscriptionNodes_def claimed_data_entries_def str_eval b64_eval)

text \<open>
  Claim C9, amended: for a link reference that begins with \<open>data:\<close>, the code decodes as
  base64 the substring between the first comma and the next comma (or the end of the
  string) and splits the decoded text on newlines; when the decoding fails, and when
  there is no comma, the result is the empty sequence. The network is not consulted.
\<close>

theorem C9_data_reference:
  assumes "startsWith subUrl (js ''data:'')"
  shows "fetchSubscriptionNodes fetch (JStr subUrl) =
     Inr (if 44 \<in> set subUrl then
            (case atob (takeWhile (\<lambda>c. c \<noteq> 44) (tl (dropWhile (\<lambda>c. c \<noteq> 44) subUrl))) of
               Inr t \<Rightarrow> js_split 10 t
             | Inl e \<Rightarrow> [])
          else [])"
  using assms unfolding fetchSubscriptionNodes_def
  by (simp add: data_payload_eq atob_undefined split: sum.splits)

theorem C9_data_reference_witness:
  "startsWith (js ''data:text/plain;base64,QQpC,Qg=='') (js ''data:'')
   \<and> fetchSubscriptionNodes (\<lambda>u. Inl OtherError) (JStr (js ''data:text/plain;base64,QQpC,Qg==''))
       = Inr [js ''A'', js ''B'']"
proof -
  let ?u = "js ''data:text/plain;base64,QQpC,Qg==''"
  have h: "startsWith ?u (js ''data:'')" by (simp add: str_eval b64_eval)
  have m: "44 \<in> set ?u" by (simp add: str_eval b64_eval)
  have t: "takeWhile (\<lambda>c. c \<noteq> 44) (tl (dropWhile (\<lambda>c. c \<noteq> 44) ?u)) = js ''QQpC''"
    by (simp add: str_eval b64_eval)
  have a: "atob (js ''QQpC'') = Inr [65, 10, 66]" by (simp add: str_eval b64_eval)
  have s: "js_split 10 [65, 10, 66] = [js ''A'', js ''B'']" by (simp add: str_eval b64_eval)
  have e: "(if 44 \<in> set ?u then
            (case atob (takeWhile (\<lambda>c. c \<noteq> 44) (tl (dropWhile (\<lambda>c. c \<noteq> 44) ?u))) of
               Inr t \<Rightarrow> js_split 10 t
             | Inl e \<Rightarrow> [])
          else []) = [js ''A'', js ''B'']"
    by (simp only: m t a s if_True sum.case)
  show ?thesis using C9_data_reference[OF h, of "\<lambda>u. Inl OtherError"] h by (simp only: e simp_thms)
qed

section \<open>The Aggregator\<close>

text \<open>
  Claim C1, as stated: the output encodes the fetched entries, each distinct one once. An
  empty entry is dropped instead: the reference \<open>data:text/plain;base64,QQoKQg==\<close>
  contributes the entries \<open>A\<close>, the empty string and \<open>B\<close>, and the output encodes the
  two lines \<open>A\<close> and \<open>B\<close>.
\<close>

theorem C1_counterexample:
  \<open>Inr (body (handleSubscription
     (example_platform (js ''{"name":"g1","links":["data:text/plain;base64,QQoKQg=="]}'')
        (JObj [(js ''name'', JStr (js ''g1'')),
               (js ''links'', JArr [JStr (js ''data:text/plain;base64,QQoKQg=='')])]))
     [js ''SUBS_GROUP:g1'' \<mapsto> js ''{"name":"g1","links":["data:text/plain;base64,QQoKQg=="]}'']
     (\<lambda>i u. Inl OtherError) (js ''g1'')))
   \<noteq> claimed_output (\<lambda>i u. Inl OtherError) [js ''data:text/plain;base64,QQoKQg=='']\<close>
  by (simp add: agg_eval claimed_output_def first_occurrences_def str_eval b64_eval)

text \<open>
  Claim C1, amended: for a stored group whose link references are strings and whose
  fetched entries have no code unit above 255, the response has status 200 and its body
  is the base64 encoding of the newline-join of the non-empty fetched entries, each
  distinct one once, in the order of its first occurrence in the concatenation of the
  per-reference results; decoding the body gives that join back.
\<close>

theorem C1_aggregation_output:
  assumes "groupId \<noteq> []"
    and "kv (js ''SUBS_GROUP:'' @ groupId) = Some groupDataStr" and "groupDataStr \<noteq> []"
    and "JSON_parse P groupDataStr = Inr groupData"
    and "get_prop groupData (js ''links'') = Inr (JArr (map JStr urls))"
    and "list_all (list_all (\<lambda>u. u < 256)) (concat (fetched_entries net urls))"
    and "entries = first_occurrences (filter (\<lambda>n. n \<noteq> []) (concat (fetched_entries net urls)))"
  shows "handleSubscription P kv net groupId =
           \<lparr>status = 200, body = b64_encode (js_join [10] entries), headers = feed_headers\<rparr>
         \<and> atob (body (handleSubscription P kv net groupId)) = Inr (js_join [10] entries)
         \<and> distinct entries
         \<and> set entries = set (filter (\<lambda>n. n \<noteq> []) (concat (fetched_entries net urls)))"
proof -
  let ?ns = "filter (\<lambda>n. n \<noteq> []) (concat (fetched_entries net urls))"
  have e: "entries = new_Set ?ns" using assms(7) by (simp add: new_Set_first_occurrences)
  have l: "list_all (\<lambda>u. u < 256) (js_join [10] entries)"
    unfolding e using assms(6) by (intro list_all_js_join) (auto simp: list_all_iff set_new_Set)
  have h: "handleSubscription P kv net groupId =
           \<lparr>status = 200, body = b64_encode (js_join [10] entries), headers = feed_headers\<rparr>"
    using aggregate_latin1[OF assms(6)] assms(1,2,3,7)
    by (simp add: handleSubscription_def feed_of_strings[OF assms(4,5)])
  show ?thesis
    using h atob_encode[OF l] by (simp add: e distinct_new_Set set_new_Set)
qed

theorem C1_aggregation_output_witness:
  \<open>handleSubscription
     (example_platform (js ''{"name":"g1","links":["data:text/plain;base64,QQpCCkE="]}'')
        (JObj [(js ''name'', JStr (js ''g1'')),
               (js ''links'', JArr [JStr (js ''data:text/plain;base64,QQpCCkE='')])]))
     [js ''SUBS_GROUP:g1'' \<mapsto> js ''{"name":"g1","links":["data:text/plain;base64,QQpCCkE="]}'']
     (\<lambda>i u. Inl OtherError) (js ''g1'')
   = \<lparr>status = 200, body = js ''QQpC'', headers = feed_headers\<rparr>
   \<and> atob (js ''QQpC'') = Inr (js ''A'' @ [10] @ js ''B'')\<close>
proof -
  let ?text = \<open>js ''{"name":"g1","links":["data:text/plain;base64,QQpCCkE="]}''\<close>
  let ?g = "JObj [(js ''name'', JStr (js ''g1'')),
               (js ''links'', JArr [JStr (js ''data:text/plain;base64,QQpCCkE='')])]"
  let ?P = "example_platform ?text ?g"
  let ?kv = "[js ''SUBS_GROUP:g1'' \<mapsto> ?text]"
  let ?net = "\<lambda>(i::nat) (u::jsstring). (Inl OtherError :: js_error + fetched)"
  let ?urls = "[js ''data:text/plain;base64,QQpCCkE='']"
  have f: "fetched_entries ?net ?urls = [[js ''A'', js ''B'', js ''A'']]"
    by (simp add: agg_eval str_eval b64_eval)
  have 1: "js ''g1'' \<noteq> []" by (simp add: js_def)
  have 2: "?kv (js ''SUBS_GROUP:'' @ js ''g1'') = Some ?text" by (simp add: js_def)
  have 3: "?text \<noteq> []" by (simp add: js_def)
  have 4: "JSON_parse ?P ?text = Inr ?g" by (simp add: example_platform_def)
  have 5: "get_prop ?g (js ''links'') = Inr (JArr (map JStr ?urls))"
    by (simp add: get_prop_def js_def)
  have 6: "list_all (list_all (\<lambda>u. u < 256)) (concat (fetched_entries ?net ?urls))"
    unfolding f by (simp add: js_def)
  have 7: "[js ''A'', js ''B''] =
      first_occurrences (filter (\<lambda>n. n \<noteq> []) (concat (fetched_entries ?net ?urls)))"
    unfolding f new_Set_first_occurrences[symmetric]
    by (simp add: new_Set_def Set_add_def js_def)
  have j: "js_join [10] [js ''A'', js ''B''] = js ''A'' @ [10] @ js ''B''" by simp
  have b: "b64_encode (js ''A'' @ [10] @ js ''B'') = js ''QQpC''"
    by (simp add: js_def b64_char_def)
  note c = C1_aggregation_output[of "js ''g1''" ?kv ?text ?P ?g ?urls ?net "[js ''A'', js ''B'']",
      OF 1 2 3 4 5 6 7]
  from c have h: "handleSubscription ?P ?kv ?net (js ''g1'') =
      \<lparr>status = 200, body = b64_encode (js_join [10] [js ''A'', js ''B'']), headers = feed_headers\<rparr>"
    by (rule conjunct1)
  from c have a: "atob (body (handleSubscription ?P ?kv ?net (js ''g1'')))
      = Inr (js_join [10] [js ''A'', js ''B''])"
    by (elim conjE)
  have a': "atob (js ''QQpC'') = Inr (js ''A'' @ [10] @ js ''B'')"
    using a unfolding h by (simp only: j b response.simps)
  have h': "handleSubscription ?P ?kv ?net (js ''g1'') =
      \<lparr>status = 200, body = js ''QQpC'', headers = feed_headers\<rparr>"
    using h by (simp only: j b)
  show ?thesis using h' a' by (rule conjI)
qed

text \<open>
  Claim C2 says that no whitespace-only line appears in the output, also for \<open>data:\<close>
  references. The code, at the group with the one link
  \<open>data:text/plain;base64,QQogIApC\<close>: the output decodes to three lines, the second of
  which is two spaces.
\<close>

theorem C2_whitespace_line_survives:
  \<open>handleSubscription
     (example_platform (js ''{"name":"g1","links":["data:text/plain;base64,QQogIApC"]}'')
        (JObj [(js ''name'', JStr (js ''g1'')),
               (js ''links'', JArr [JStr (js ''data:text/plain;base64,QQogIApC'')])]))
     [js ''SUBS_GROUP:g1'' \<mapsto> js ''{"name":"g1","links":["data:text/plain;base64,QQogIApC"]}'']
     (\<lambda>i u. Inl OtherError) (js ''g1'')
   = \<lparr>status = 200, body = js ''QQogIApC'', headers = feed_headers\<rparr>
   \<and> atob (js ''QQogIApC'') = Inr (js ''A'' @ [10] @ js ''  '' @ [10] @ js ''B'')
   \<and> js_split 10 (js ''A'' @ [10] @ js ''  '' @ [10] @ js ''B'') = [js ''A'', js ''  '', js ''B'']
   \<and> trim (js ''  '') = []\<close>
  by (simp add: agg_eval str_eval b64_eval)

text \<open>
  Claim C5: a group that is not in the store gives the 404 response (and never status
  200), while a stored group whose link list is empty gives status 200 with the empty
  encoded output. The router only passes a group id that is not empty.
\<close>

theorem C5_not_found_and_empty_group:
  "(groupId \<noteq> [] \<and> kv (js ''SUBS_GROUP:'' @ groupId) = None
      \<longrightarrow> handleSubscription P kv net groupId =
            \<lparr>status = 404, body = js ''// Group not found or has no subscriptions.'',
             headers = [(js ''Content-Type'', js ''text/plain; charset=utf-8'')]\<rparr>)
   \<and> (kv (js ''SUBS_GROUP:'' @ groupId) = None
      \<longrightarrow> status (handleSubscription P kv net groupId) \<noteq> 200)
   \<and> (groupId \<noteq> [] \<and> kv (js ''SUBS_GROUP:'' @ groupId) = Some groupDataStr
        \<and> groupDataStr \<noteq> [] \<and> JSON_parse P groupDataStr = Inr groupData
        \<and> get_prop groupData (js ''links'') = Inr (JArr [])
      \<longrightarrow> handleSubscription P kv net groupId =
            \<lparr>status = 200, body = [], headers = feed_headers\<rparr>)"
  by (simp add: handleSubscription_def subscription_feed_def js_or_def aggregate_def new_Set_def
      btoa_def)

theorem C5_not_found_and_empty_group_witness:
  \<open>handleSubscription
     (example_platform (js ''{"name":"g1","links":[]}'')
        (JObj [(js ''name'', JStr (js ''g1'')), (js ''links'', JArr [])]))
     [js ''SUBS_GROUP:g1'' \<mapsto> js ''{"name":"g1","links":[]}'']
     (\<lambda>i u. Inl OtherError) (js ''g2'')
   = \<lparr>status = 404, body = js ''// Group not found or has no subscriptions.'',
      headers = [(js ''Content-Type'', js ''text/plain; charset=utf-8'')]\<rparr>
   \<and> handleSubscription
     (example_platform (js ''{"name":"g1","links":[]}'')
        (JObj [(js ''name'', JStr (js ''g1'')), (js ''links'', JArr [])]))
     [js ''SUBS_GROUP:g1'' \<mapsto> js ''{"name":"g1","links":[]}'']
     (\<lambda>i u. Inl OtherError) (js ''g1'')
   = \<lparr>status = 200, body = [], headers = feed_headers\<rparr>\<close>
proof -
  let ?text = \<open>js ''{"name":"g1","links":[]}''\<close>
  let ?g = "JObj [(js ''name'', JStr (js ''g1'')), (js ''links'', JArr [])]"
  let ?P = "example_platform ?text ?g"
  let ?kv = "[js ''SUBS_GROUP:g1'' \<mapsto> ?text]"
  let ?net = "\<lambda>(i::nat) (u::jsstring). (Inl OtherError :: js_error + fetched)"
  have a: "js ''g2'' \<noteq> [] \<and> ?kv (js ''SUBS_GROUP:'' @ js ''g2'') = None"
    by (simp add: js_def)
  have b: "js ''g1'' \<noteq> [] \<and> ?kv (js ''SUBS_GROUP:'' @ js ''g1'') = Some ?text
        \<and> ?text \<noteq> [] \<and> JSON_parse ?P ?text = Inr ?g
        \<and> get_prop ?g (js ''links'') = Inr (JArr [])"
    by (simp add: js_def example_platform_def get_prop_def)
  show ?thesis
    using C5_not_found_and_empty_group[of "js ''g2''" ?kv ?P ?net ?text ?g] a
      C5_not_found_and_empty_group[of "js ''g1''" ?kv ?P ?net ?text ?g] b
    by blast
qed

text \<open>
  Claim C6, as stated: with one link whose fetch fails and one whose source returns the
  body \<open>X\<close>, newline, \<open>Y\<close>, the output decodes to that body. \<open>atob\<close> drops the newline
  and decodes \<open>XY\<close> to the single byte 93, so the output does not decode to the body.
\<close>

theorem C6_counterexample:
  \<open>atob (body (handleSubscription
     (example_platform
        (js ''{"name":"g1","links":["https://down.example/sub","https://up.example/sub"]}'')
        (JObj [(js ''name'', JStr (js ''g1'')),
               (js ''links'', JArr [JStr (js ''https://down.example/sub''),
                                    JStr (js ''https://up.example/sub'')])]))
     [js ''SUBS_GROUP:g1'' \<mapsto>
        js ''{"name":"g1","links":["https://down.example/sub","https://up.example/sub"]}'']
     (\<lambda>i u. if u = js ''https://up.example/sub''
            then Inr (Fetched True 200 (Inr (js ''X'' @ [10] @ js ''Y'')))
            else Inl OtherError)
     (js ''g1'')))
   \<noteq> Inr (js ''X'' @ [10] @ js ''Y'')\<close>
  by (simp add: agg_eval str_eval b64_eval)

text \<open>
  Claim C6, amended: for a group with exactly two link references, one whose fetch fails
  with a network error and one whose remote source returns a body of two distinct
  non-blank lines with no code unit above 255 that is not itself decodable as base64,
  the response has status 200 and its body decodes to exactly that body, in either
  order of the two links.
\<close>

theorem C6_failed_fetch_contributes_nothing:
  assumes "groupId \<noteq> []"
    and "kv (js ''SUBS_GROUP:'' @ groupId) = Some groupDataStr" and "groupDataStr \<noteq> []"
    and "JSON_parse P groupDataStr = Inr groupData"
    and "\<not> startsWith bad (js ''data:'')" and "\<not> startsWith good (js ''data:'')"
    and "resp_ok r" and "resp_text r = Inr (l1 @ [10] @ l2)"
    and "atob (l1 @ [10] @ l2) = Inl e"
    and "10 \<notin> set l1" and "10 \<notin> set l2" and "trim l1 \<noteq> []" and "trim l2 \<noteq> []"
    and "l1 \<noteq> l2"
    and "list_all (\<lambda>u. u < 256) l1" and "list_all (\<lambda>u. u < 256) l2"
  shows "(get_prop groupData (js ''links'') = Inr (JArr [JStr bad, JStr good])
          \<and> net 0 bad = Inl err \<and> net 1 good = Inr r
        \<longrightarrow> status (handleSubscription P kv net groupId) = 200
            \<and> atob (body (handleSubscription P kv net groupId)) = Inr (l1 @ [10] @ l2))
       \<and> (get_prop groupData (js ''links'') = Inr (JArr [JStr good, JStr bad])
          \<and> net 0 good = Inr r \<and> net 1 bad = Inl err
        \<longrightarrow> status (handleSubscription P kv net groupId) = 200
            \<and> atob (body (handleSubscription P kv net groupId)) = Inr (l1 @ [10] @ l2))"
proof -
  have lat: "list_all (\<lambda>u. u < 256) (l1 @ [10] @ l2)" using assms(15,16) by simp
  note dec = atob_encode[OF lat]
  note agg = aggregate_two_lines[OF assms(14,12,13,15,16)]
  have first: "status (handleSubscription P kv net groupId) = 200
            \<and> atob (body (handleSubscription P kv net groupId)) = Inr (l1 @ [10] @ l2)"
    if l: "get_prop groupData (js ''links'') = Inr (JArr [JStr bad, JStr good])"
      and b: "net 0 bad = Inl err" and g: "net 1 good = Inr r"
  proof -
    have fb: "fetchSubscriptionNodes (net 0) (JStr bad) = Inr []"
      using assms(5) b by (rule fetch_network_error)
    have fg: "fetchSubscriptionNodes (net (Suc 0)) (JStr good) = Inr [l1, l2]"
      using fetch_plain_two_lines[of good "net 1" r l1 l2 e] assms g by simp
    have "subscription_feed P net groupDataStr =
        Inr \<lparr>status = 200, body = b64_encode (l1 @ [10] @ l2), headers = feed_headers\<rparr>"
      using assms(4) l fb fg agg by (simp add: subscription_feed_def js_or_def)
    then show ?thesis using assms(1,2,3) dec by (simp add: handleSubscription_def)
  qed
  have second: "status (handleSubscription P kv net groupId) = 200
            \<and> atob (body (handleSubscription P kv net groupId)) = Inr (l1 @ [10] @ l2)"
    if l: "get_prop groupData (js ''links'') = Inr (JArr [JStr good, JStr bad])"
      and g: "net 0 good = Inr r" and b: "net 1 bad = Inl err"
  proof -
    have fb: "fetchSubscriptionNodes (net (Suc 0)) (JStr bad) = Inr []"
      using fetch_network_error[of bad "net 1" err] assms(5) b by simp
    have fg: "fetchSubscriptionNodes (net 0) (JStr good) = Inr [l1, l2]"
      using fetch_plain_two_lines[of good "net 0" r l1 l2 e] assms g by simp
    have "subscription_feed P net groupDataStr =
        Inr \<lparr>status = 200, body = b64_encode (l1 @ [10] @ l2), headers = feed_headers\<rparr>"
      using assms(4) l fb fg agg by (simp add: subscription_feed_def js_or_def)
    then show ?thesis using assms(1,2,3) dec by (simp add: handleSubscription_def)
  qed
  show ?thesis using first second by blast
qed

theorem C6_failed_fetch_contributes_nothing_witness:
  \<open>(status (handleSubscription
       (example_platform
          (js ''{"name":"g1","links":["https://down.example/sub","https://up.example/sub"]}'')
          (JObj [(js ''name'', JStr (js ''g1'')),
                 (js ''links'', JArr [JStr (js ''https://down.example/sub''),
                                      JStr (js ''https://up.example/sub'')])]))
       [js ''SUBS_GROUP:g1'' \<mapsto>
          js ''{"name":"g1","links":["https://down.example/sub","https://up.example/sub"]}'']
       (\<lambda>i u. if u = js ''https://up.example/sub''
              then Inr (Fetched True 200 (Inr (js ''ss://a'' @ [10] @ js ''ss://b'')))
              else Inl OtherError)
       (js ''g1'')) = 200
     \<and> atob (body (handleSubscription
       (example_platform
          (js ''{"name":"g1","links":["https://down.example/sub","https://up.example/sub"]}'')
          (JObj [(js ''name'', JStr (js ''g1'')),
                 (js ''links'', JArr [JStr (js ''https://down.example/sub''),
                                      JStr (js ''https://up.example/sub'')])]))
       [js ''SUBS_GROUP:g1'' \<mapsto>
          js ''{"name":"g1","links":["https://down.example/sub","https://up.example/sub"]}'']
       (\<lambda>i u. if u = js ''https://up.example/sub''
              then Inr (Fetched True 200 (Inr (js ''ss://a'' @ [10] @ js ''ss://b'')))
              else Inl OtherError)
       (js ''g1''))) = Inr (js ''ss://a'' @ [10] @ js ''ss://b''))
   \<and> (status (handleSubscription
       (example_platform
          (js ''{"name":"g1","links":["https://up.example/sub","https://down.example/sub"]}'')
          (JObj [(js ''name'', JStr (js ''g1'')),
                 (js ''links'', JArr [JStr (js ''https://up.example/sub''),
                                      JStr (js ''https://down.example/sub'')])]))
       [js ''SUBS_GROUP:g1'' \<mapsto>
          js ''{"name":"g1","links":["https://up.example/sub","https://down.example/sub"]}'']
       (\<lambda>i u. if u = js ''https://up.example/sub''
              then Inr (Fetched True 200 (Inr (js ''ss://a'' @ [10] @ js ''ss://b'')))
              else Inl OtherError)
       (js ''g1'')) = 200
     \<and> atob (body (handleSubscription
       (example_platform
          (js ''{"name":"g1","links":["https://up.example/sub","https://down.example/sub"]}'')
          (JObj [(js ''name'', JStr (js ''g1'')),
                 (js ''links'', JArr [JStr (js ''https://up.example/sub''),
                                      JStr (js ''https://down.example/sub'')])]))
       [js ''SUBS_GROUP:g1'' \<mapsto>
          js ''{"name":"g1","links":["https://up.example/sub","https://down.example/sub"]}'']
       (\<lambda>i u. if u = js ''https://up.example/sub''
              then Inr (Fetched True 200 (Inr (js ''ss://a'' @ [10] @ js ''ss://b'')))
              else Inl OtherError)
       (js ''g1''))) = Inr (js ''ss://a'' @ [10] @ js ''ss://b''))\<close>
proof -
  let ?bad = "js ''https://down.example/sub''"
  let ?good = "js ''https://up.example/sub''"
  let ?l1 = "js ''ss://a''"
  let ?l2 = "js ''ss://b''"
  let ?r = "Fetched True 200 (Inr (?l1 @ [10] @ ?l2))"
  let ?net = "\<lambda>(i::nat) u. if u = ?good then Inr ?r else Inl OtherError"
  let ?t1 = \<open>js ''{"name":"g1","links":["https://down.example/sub","https://up.example/sub"]}''\<close>
  let ?t2 = \<open>js ''{"name":"g1","links":["https://up.example/sub","https://down.example/sub"]}''\<close>
  let ?g1 = "JObj [(js ''name'', JStr (js ''g1'')), (js ''links'', JArr [JStr ?bad, JStr ?good])]"
  let ?g2 = "JObj [(js ''name'', JStr (js ''g1'')), (js ''links'', JArr [JStr ?good, JStr ?bad])]"
  have 1: "js ''g1'' \<noteq> []" by (simp add: js_def)
  have k1: "[js ''SUBS_GROUP:g1'' \<mapsto> ?t1] (js ''SUBS_GROUP:'' @ js ''g1'') = Some ?t1"
    by (simp add: js_def)
  have k2: "[js ''SUBS_GROUP:g1'' \<mapsto> ?t2] (js ''SUBS_GROUP:'' @ js ''g1'') = Some ?t2"
    by (simp add: js_def)
  have n1: "?t1 \<noteq> []" and n2: "?t2 \<noteq> []" by (simp_all add: js_def)
  have p1: "JSON_parse (example_platform ?t1 ?g1) ?t1 = Inr ?g1"
    and p2: "JSON_parse (example_platform ?t2 ?g2) ?t2 = Inr ?g2"
    by (simp_all add: example_platform_def)
  have sb: "\<not> startsWith ?bad (js ''data:'')" and sg: "\<not> startsWith ?good (js ''data:'')"
    by (simp_all add: str_eval)
  have ok: "resp_ok ?r" and tx: "resp_text ?r = Inr (?l1 @ [10] @ ?l2)" by simp_all
  have at: "atob (?l1 @ [10] @ ?l2) = Inl InvalidCharacterError" by (simp add: str_eval b64_eval)
  have nl: "10 \<notin> set ?l1" "10 \<notin> set ?l2" by (simp_all add: js_def)
  have tr: "trim ?l1 \<noteq> []" "trim ?l2 \<noteq> []" by (simp_all add: str_eval)
  have ne: "?l1 \<noteq> ?l2" by (simp add: js_def)
  have la: "list_all (\<lambda>u. u < 256) ?l1" "list_all (\<lambda>u. u < 256) ?l2" by (simp_all add: js_def)
  have a1: "get_prop ?g1 (js ''links'') = Inr (JArr [JStr ?bad, JStr ?good])
      \<and> ?net 0 ?bad = Inl OtherError \<and> ?net 1 ?good = Inr ?r"
    by (simp add: get_prop_def js_def)
  have a2: "get_prop ?g2 (js ''links'') = Inr (JArr [JStr ?good, JStr ?bad])
      \<and> ?net 0 ?good = Inr ?r \<and> ?net 1 ?bad = Inl OtherError"
    by (simp add: get_prop_def js_def)
  note c1 = C6_failed_fetch_contributes_nothing[of "js ''g1''" "[js ''SUBS_GROUP:g1'' \<mapsto> ?t1]" ?t1
      "example_platform ?t1 ?g1" ?g1 ?bad ?good ?r ?l1 ?l2 InvalidCharacterError ?net OtherError,
      OF 1 k1 n1 p1 sb sg ok tx at nl tr ne la]
  note c2 = C6_failed_fetch_contributes_nothing[of "js ''g1''" "[js ''SUBS_GROUP:g1'' \<mapsto> ?t2]" ?t2
      "example_platform ?t2 ?g2" ?g2 ?bad ?good ?r ?l1 ?l2 InvalidCharacterError ?net OtherError,
      OF 1 k2 n2 p2 sb sg ok tx at nl tr ne la]
  from c1 a1 have r1: "status (handleSubscription (example_platform ?t1 ?g1)
        [js ''SUBS_GROUP:g1'' \<mapsto> ?t1] ?net (js ''g1'')) = 200
      \<and> atob (body (handleSubscription (example_platform ?t1 ?g1)
        [js ''SUBS_GROUP:g1'' \<mapsto> ?t1] ?net (js ''g1''))) = Inr (?l1 @ [10] @ ?l2)"
    by blast
  from c2 a2 have r2: "status (handleSubscription (example_platform ?t2 ?g2)
        [js ''SUBS_GROUP:g1'' \<mapsto> ?t2] ?net (js ''g1'')) = 200
      \<and> atob (body (handleSubscription (example_platform ?t2 ?g2)
        [js ''SUBS_GROUP:g1'' \<mapsto> ?t2] ?net (js ''g1''))) = Inr (?l1 @ [10] @ ?l2)"
    by blast
  show ?thesis using r1 r2 by (rule conjI)
qed

section \<open>The Config Importer\<close>

text \<open>
  Claim C7, as stated: a config whose outbounds contain exactly one vmess outbound with
  one server (address \<open>h\<close>, port 443, user id \<open>u1\<close>) yields exactly one share link. With a
  vless outbound next to it the import yields two links, the second one for the vless
  server.
\<close>

theorem C7_counterexample:
  \<open>parseXrayConfig
     (example_platform
        (js ''{"outbounds":[{"protocol":"vmess","settings":{"vnext":[{"address":"h","port":443,"users":[{"id":"u1"}]}]}},{"protocol":"vless","settings":{"vnext":[{"address":"h2","port":8443,"users":[{"id":"u2"}]}]}}]}'')
        (JObj [(js ''outbounds'', JArr
          [JObj
           [(js ''protocol'', JStr (js ''vmess'')),
            (js ''settings'', JObj [(js ''vnext'', JArr [JObj
               [(js ''address'', JStr (js ''h'')),
                (js ''port'', JNum 443),
                (js ''users'', JArr [JObj [(js ''id'', JStr (js ''u1''))]])]])])],
           JObj
           [(js ''protocol'', JStr (js ''vless'')),
            (js ''settings'', JObj [(js ''vnext'', JArr [JObj
               [(js ''address'', JStr (js ''h2'')),
                (js ''port'', JNum 8443),
                (js ''users'', JArr [JObj [(js ''id'', JStr (js ''u2''))]])]])])]])]))
     (js ''{"outbounds":[{"protocol":"vmess","settings":{"vnext":[{"address":"h","port":443,"users":[{"id":"u1"}]}]}},{"protocol":"vless","settings":{"vnext":[{"address":"h2","port":8443,"users":[{"id":"u2"}]}]}}]}'')
   = [js ''vmess://eyJ2IjoiMiIsInBzIjoiaW1wb3J0ZWQtbm9kZSIsImFkZCI6ImgiLCJwb3J0Ijo0NDMsImlkIjoidTEiLCJuZXQiOiJ0Y3AiLCJ0eXBlIjoibm9uZSIsImhvc3QiOiIiLCJwYXRoIjoiIiwidGxzIjoiIn0='',
      js ''vless://u2@h2:8443?type=tcp&security=none&path=&host=&flow=&encryption=none#imported-node'']\<close>
  by (simp add: import_eval json_eval url_eval btoa_def b64_char_def js_def)

text \<open>
  Claim C7, amended: a config whose outbounds contain exactly one vmess outbound with one
  server (address \<open>h\<close>, port 443, user id \<open>u1\<close>), every other outbound being a value with
  properties whose protocol is neither \<open>vmess\<close> nor \<open>vless\<close>, and whose descriptor has a
  JSON text with no code unit above 255, yields exactly one share link; the link is
  \<open>vmess://\<close> followed by a base64 text, and the decoded text reads as JSON with \<open>add\<close>
  equal to \<open>h\<close>, \<open>port\<close> equal to 443 and \<open>id\<close> equal to \<open>u1\<close>.
\<close>

theorem C7_vmess_import:
  assumes parse: "JSON_parse P configStr = Inr config"
    and outbounds: "get_prop config (js ''outbounds'') = Inr (JArr (before @ [outbound] @ after))"
    and others: "list_all other_protocol (before @ after)"
    and protocol: "opt_prop outbound (js ''protocol'') = JStr (js ''vmess'')"
    and vnext: "opt_prop (opt_prop outbound (js ''settings'')) (js ''vnext'') = JArr [server]"
    and address: "opt_prop server (js ''address'') = JStr (js ''h'')"
    and port: "opt_prop server (js ''port'') = JNum 443"
    and id: "opt_prop (opt_index (opt_prop server (js ''users'')) 0) (js ''id'') = JStr (js ''u1'')"
    and latin1: "\<forall>vmess t.
        vmess_descriptor outbound
          (js_or (opt_prop outbound (js ''remark'')) (JStr (js ''imported-node''))) server = Inr vmess
        \<longrightarrow> JSON_stringify vmess = Some t \<longrightarrow> list_all (\<lambda>u. u < 256) t"
  shows "\<exists>payload t decoded.
       parseXrayConfig P configStr = [js ''vmess://'' @ payload]
       \<and> atob payload = Inr t
       \<and> JSON_read t = Some decoded
       \<and> opt_prop decoded (js ''add'') = JStr (js ''h'')
       \<and> opt_prop decoded (js ''port'') = JNum 443
       \<and> opt_prop decoded (js ''id'') = JStr (js ''u1'')"
proof -
  let ?remark = "js_or (opt_prop outbound (js ''remark'')) (JStr (js ''imported-node''))"
  let ?users = "opt_prop server (js ''users'')"
  let ?user = "opt_index ?users 0"
  have no: "\<not> nullish outbound" using protocol by (intro opt_prop_defined[of _ "js ''protocol''"]) simp
  have ns: "\<not> nullish server" using address by (intro opt_prop_defined[of _ "js ''address''"]) simp
  have nu: "\<not> nullish ?user" using id by (intro opt_prop_defined[of _ "js ''id''"]) simp
  have nus: "\<not> nullish ?users"
  proof (rule opt_index_defined[of _ 0])
    show "?user \<noteq> JUndefined" using nu by (cases ?user) simp_all
  qed
  obtain props where d: "vmess_descriptor outbound ?remark server = Inr (JObj props)"
    and fa: "opt_prop (JObj props) (js ''add'') = JStr (js ''h'')"
    and fp: "opt_prop (JObj props) (js ''port'') = JNum 443"
    and fi: "opt_prop (JObj props) (js ''id'') = JStr (js ''u1'')"
  proof -
    let ?ss = "opt_prop outbound (js ''streamSettings'')"
    let ?props = "[(js ''v'', JStr (js ''2'')),
          (js ''ps'', js_or (opt_prop server (js ''remark'')) ?remark),
          (js ''add'', JStr (js ''h'')),
          (js ''port'', JNum 443),
          (js ''id'', JStr (js ''u1'')),
          (js ''aid'', opt_prop ?user (js ''alterId'')),
          (js ''net'', js_or (opt_prop ?ss (js ''network'')) (JStr (js ''tcp''))),
          (js ''type'', JStr (js ''none'')),
          (js ''host'',
             js_or (opt_prop (opt_prop (opt_prop ?ss (js ''wsSettings'')) (js ''headers'')) (js ''Host''))
               (js_or (opt_index (opt_prop (opt_prop ?ss (js ''httpSettings'')) (js ''host'')) 0) (JStr []))),
          (js ''path'',
             js_or (opt_prop (opt_prop ?ss (js ''wsSettings'')) (js ''path''))
               (js_or (opt_prop (opt_prop ?ss (js ''httpSettings'')) (js ''path'')) (JStr []))),
          (js ''tls'',
             if opt_prop ?ss (js ''security'') = JStr (js ''tls'')
             then JStr (js ''tls'') else JStr [])]"
    have 1: "vmess_descriptor outbound ?remark server = Inr (JObj ?props)"
      by (simp add: vmess_descriptor_def get_prop_defined[OF ns] get_prop_defined[OF no]
          get_prop_defined[OF nu] get_index_defined[OF nus] address port id Let_def)
    have k: "js ''add'' \<noteq> js ''v''" "js ''add'' \<noteq> js ''ps''" "js ''port'' \<noteq> js ''v''"
      "js ''port'' \<noteq> js ''ps''" "js ''port'' \<noteq> js ''add''" "js ''id'' \<noteq> js ''v''"
      "js ''id'' \<noteq> js ''ps''" "js ''id'' \<noteq> js ''add''" "js ''id'' \<noteq> js ''port''"
      by (simp_all add: js_def)
    have 2: "opt_prop (JObj ?props) (js ''add'') = JStr (js ''h'')" using k by simp
    have 3: "opt_prop (JObj ?props) (js ''port'') = JNum 443" using k by simp
    have 4: "opt_prop (JObj ?props) (js ''id'') = JStr (js ''u1'')" using k by simp
    show ?thesis using that[OF 1 2 3 4] .
  qed
  obtain t where t: "JSON_stringify (JObj props) = Some t"
    using JSON_stringify_object by blast
  have l: "list_all (\<lambda>u. u < 256) t" using latin1 d t by blast
  have node: "vmess_node outbound ?remark server = Inr [js ''vmess://'' @ b64_encode t]"
    using l by (simp add: vmess_node_def d t btoa_def del: JSON_stringify.simps)
  have ob: "outbound_nodes outbound = Inr [js ''vmess://'' @ b64_encode t]"
    by (simp add: outbound_nodes_def get_prop_defined[OF no] protocol vnext node Let_def)
  have "collect outbound_nodes [outbound] = Inr [js ''vmess://'' @ b64_encode t]"
    by (simp add: ob)
  moreover have "collect outbound_nodes before = Inr []" "collect outbound_nodes after = Inr []"
    using others by (simp_all add: collect_others)
  ultimately have "collect outbound_nodes (before @ [outbound] @ after)
      = Inr ([] @ [js ''vmess://'' @ b64_encode t] @ [])"
    by (intro collect_append)
  then have p: "parseXrayConfig P configStr = [js ''vmess://'' @ b64_encode t]"
    by (simp add: parseXrayConfig_def parse outbounds)
  have r: "JSON_read t = Some (json_norm (JObj props))" using t l by (rule JSON_read_stringify)
  have na: "opt_prop (json_norm (JObj props)) (js ''add'') = JStr (js ''h'')"
    using opt_prop_json_norm[OF fa] by simp
  have np: "opt_prop (json_norm (JObj props)) (js ''port'') = JNum 443"
    using opt_prop_json_norm[OF fp] by simp
  have ni: "opt_prop (json_norm (JObj props)) (js ''id'') = JStr (js ''u1'')"
    using opt_prop_json_norm[OF fi] by simp
  show ?thesis using p atob_encode[OF l] r na np ni by blast
qed

theorem C7_vmess_import_witness:
  \<open>parseXrayConfig
     (example_platform
        (js ''{"outbounds":[{"protocol":"vmess","remark":"a'' @ [92, 34] @ js ''b","settings":{"vnext":[{"address":"h","port":443,"users":[{"id":"u1"}]}]}},{"protocol":"freedom"}]}'')
        (JObj [(js ''outbounds'', JArr
          [JObj
           [(js ''protocol'', JStr (js ''vmess'')),
            (js ''remark'', JStr (js ''a"b'')),
            (js ''settings'', JObj [(js ''vnext'', JArr [JObj
               [(js ''address'', JStr (js ''h'')),
                (js ''port'', JNum 443),
                (js ''users'', JArr [JObj [(js ''id'', JStr (js ''u1''))]])]])])],
           JObj [(js ''protocol'', JStr (js ''freedom''))]])]))
     (js ''{"outbounds":[{"protocol":"vmess","remark":"a'' @ [92, 34] @ js ''b","settings":{"vnext":[{"address":"h","port":443,"users":[{"id":"u1"}]}]}},{"protocol":"freedom"}]}'')
   = [js ''vmess://eyJ2IjoiMiIsInBzIjoiYVwiYiIsImFkZCI6ImgiLCJwb3J0Ijo0NDMsImlkIjoidTEiLCJuZXQiOiJ0Y3AiLCJ0eXBlIjoibm9uZSIsImhvc3QiOiIiLCJwYXRoIjoiIiwidGxzIjoiIn0='']
   \<and> atob (js ''eyJ2IjoiMiIsInBzIjoiYVwiYiIsImFkZCI6ImgiLCJwb3J0Ijo0NDMsImlkIjoidTEiLCJuZXQiOiJ0Y3AiLCJ0eXBlIjoibm9uZSIsImhvc3QiOiIiLCJwYXRoIjoiIiwidGxzIjoiIn0='')
     = Inr (js ''{"v":"2","ps":"a'' @ [92, 34] @ js ''b","add":"h","port":443,"id":"u1","net":"tcp","type":"none","host":"","path":"","tls":""}'')
   \<and> JSON_read (js ''{"v":"2","ps":"a'' @ [92, 34] @ js ''b","add":"h","port":443,"id":"u1","net":"tcp","type":"none","host":"","path":"","tls":""}'')
     = Some (JObj [(js ''v'', JStr (js ''2'')), (js ''ps'', JStr (js ''a"b'')),
                   (js ''add'', JStr (js ''h'')), (js ''port'', JNum 443),
                   (js ''id'', JStr (js ''u1'')), (js ''net'', JStr (js ''tcp'')),
                   (js ''type'', JStr (js ''none'')), (js ''host'', JStr []),
                   (js ''path'', JStr []), (js ''tls'', JStr [])])
   \<and> opt_prop (JObj [(js ''v'', JStr (js ''2'')), (js ''ps'', JStr (js ''a"b'')),
                   (js ''add'', JStr (js ''h'')), (js ''port'', JNum 443),
                   (js ''id'', JStr (js ''u1'')), (js ''net'', JStr (js ''tcp'')),
                   (js ''type'', JStr (js ''none'')), (js ''host'', JStr []),
                   (js ''path'', JStr []), (js ''tls'', JStr [])]) (js ''add'') = JStr (js ''h'')
   \<and> opt_prop (JObj [(js ''v'', JStr (js ''2'')), (js ''ps'', JStr (js ''a"b'')),
                   (js ''add'', JStr (js ''h'')), (js ''port'', JNum 443),
                   (js ''id'', JStr (js ''u1'')), (js ''net'', JStr (js ''tcp'')),
                   (js ''type'', JStr (js ''none'')), (js ''host'', JStr []),
                   (js ''path'', JStr []), (js ''tls'', JStr [])]) (js ''port'') = JNum 443
   \<and> opt_prop (JObj [(js ''v'', JStr (js ''2'')), (js ''ps'', JStr (js ''a"b'')),
                   (js ''add'', JStr (js ''h'')), (js ''port'', JNum 443),
                   (js ''id'', JStr (js ''u1'')), (js ''net'', JStr (js ''tcp'')),
                   (js ''type'', JStr (js ''none'')), (js ''host'', JStr []),
                   (js ''path'', JStr []), (js ''tls'', JStr [])]) (js ''id'') = JStr (js ''u1'')\<close>
proof -
  let ?text = \<open>js ''{"outbounds":[{"protocol":"vmess","remark":"a'' @ [92, 34] @ js ''b","settings":{"vnext":[{"address":"h","port":443,"users":[{"id":"u1"}]}]}},{"protocol":"freedom"}]}''\<close>
  let ?server = "JObj [(js ''address'', JStr (js ''h'')), (js ''port'', JNum 443),
                (js ''users'', JArr [JObj [(js ''id'', JStr (js ''u1''))]])]"
  let ?outbound = \<open>JObj [(js ''protocol'', JStr (js ''vmess'')),
            (js ''remark'', JStr (js ''a"b'')),
            (js ''settings'', JObj [(js ''vnext'', JArr [?server])])]\<close>
  let ?freedom = "JObj [(js ''protocol'', JStr (js ''freedom''))]"
  let ?config = "JObj [(js ''outbounds'', JArr [?outbound, ?freedom])]"
  let ?P = "example_platform ?text ?config"
  let ?remark = "js_or (opt_prop ?outbound (js ''remark'')) (JStr (js ''imported-node''))"
  let ?json = \<open>js ''{"v":"2","ps":"a'' @ [92, 34] @ js ''b","add":"h","port":443,"id":"u1","net":"tcp","type":"none","host":"","path":"","tls":""}''\<close>
  let ?b64 = "js ''eyJ2IjoiMiIsInBzIjoiYVwiYiIsImFkZCI6ImgiLCJwb3J0Ijo0NDMsImlkIjoidTEiLCJuZXQiOiJ0Y3AiLCJ0eXBlIjoibm9uZSIsImhvc3QiOiIiLCJwYXRoIjoiIiwidGxzIjoiIn0=''"
  let ?vmess = \<open>JObj [(js ''v'', JStr (js ''2'')), (js ''ps'', JStr (js ''a"b'')),
      (js ''add'', JStr (js ''h'')), (js ''port'', JNum 443), (js ''id'', JStr (js ''u1'')),
      (js ''aid'', JUndefined), (js ''net'', JStr (js ''tcp'')), (js ''type'', JStr (js ''none'')),
      (js ''host'', JStr []), (js ''path'', JStr []), (js ''tls'', JStr [])]\<close>
  let ?decoded = \<open>JObj [(js ''v'', JStr (js ''2'')), (js ''ps'', JStr (js ''a"b'')),
                   (js ''add'', JStr (js ''h'')), (js ''port'', JNum 443),
                   (js ''id'', JStr (js ''u1'')), (js ''net'', JStr (js ''tcp'')),
                   (js ''type'', JStr (js ''none'')), (js ''host'', JStr []),
                   (js ''path'', JStr []), (js ''tls'', JStr [])]\<close>
  have 1: "JSON_parse ?P ?text = Inr ?config" by (simp add: example_platform_def)
  have 2: "get_prop ?config (js ''outbounds'') = Inr (JArr ([] @ [?outbound] @ [?freedom]))"
    by (simp add: get_prop_def)
  have o: "list_all other_protocol ([] @ [?freedom])"
    by (simp add: other_protocol_def js_def)
  have 3: "opt_prop ?outbound (js ''protocol'') = JStr (js ''vmess'')" by simp
  have 4: "opt_prop (opt_prop ?outbound (js ''settings'')) (js ''vnext'') = JArr [?server]"
    by (simp add: js_def)
  have 5: "opt_prop ?server (js ''address'') = JStr (js ''h'')" by simp
  have 6: "opt_prop ?server (js ''port'') = JNum 443" by (simp add: js_def)
  have 7: "opt_prop (opt_index (opt_prop ?server (js ''users'')) 0) (js ''id'') = JStr (js ''u1'')"
    by (simp add: js_def)
  have d: "vmess_descriptor ?outbound ?remark ?server = Inr ?vmess"
    by (simp add: vmess_descriptor_def json_eval js_def)
  have s: "JSON_stringify ?vmess = Some ?json"
    by (simp add: json_eval js_def)
  have l: "list_all (\<lambda>u. u < 256) ?json" by (simp add: js_def)
  have 8: "\<forall>vmess t. vmess_descriptor ?outbound ?remark ?server = Inr vmess
        \<longrightarrow> JSON_stringify vmess = Some t \<longrightarrow> list_all (\<lambda>u. u < 256) t"
    using s l unfolding d by (simp del: JSON_stringify.simps)
  have p: "parseXrayConfig ?P ?text = [js ''vmess://'' @ ?b64]"
    by (simp add: import_eval json_eval btoa_def b64_char_def js_def)
  have a: "atob ?b64 = Inr ?json" by (simp add: b64_eval js_def)
  have r: "JSON_read ?json = Some ?decoded" by (simp add: read_eval startsWith_def js_def)
  from C7_vmess_import[of ?P ?text ?config "[]" ?outbound "[?freedom]" ?server, OF 1 2 o 3 4 5 6 7 8]
  obtain payload t decoded where tp: "parseXrayConfig ?P ?text = [js ''vmess://'' @ payload]"
    and ta: "atob payload = Inr t"
    and tr: "JSON_read t = Some decoded"
    and tf: "opt_prop decoded (js ''add'') = JStr (js ''h'')"
      "opt_prop decoded (js ''port'') = JNum 443"
      "opt_prop decoded (js ''id'') = JStr (js ''u1'')"
    by blast
  have "payload = ?b64" using tp unfolding p by simp
  then have "t = ?json" using ta a by simp
  then have "decoded = ?decoded" using tr r by simp
  then have f: "opt_prop ?decoded (js ''add'') = JStr (js ''h'')"
      "opt_prop ?decoded (js ''port'') = JNum 443"
      "opt_prop ?decoded (js ''id'') = JStr (js ''u1'')"
    using tf by simp_all
  have c: "js ''vmess://'' @ ?b64 = js ''vmess://eyJ2IjoiMiIsInBzIjoiYVwiYiIsImFkZCI6ImgiLCJwb3J0Ijo0NDMsImlkIjoidTEiLCJuZXQiOiJ0Y3AiLCJ0eXBlIjoibm9uZSIsImhvc3QiOiIiLCJwYXRoIjoiIiwidGxzIjoiIn0=''"
    by (simp add: js_def)
  show ?thesis using p a r f unfolding c by (intro conjI)
qed

text \<open>
  Claim C8 says that the path field of the query of a vless link is the URL encoding of
  the path, applied once. The code, at a vless outbound whose WebSocket path is \<open>/ws\<close>:
  \<open>encodeURIComponent\<close> makes it \<open>%2Fws\<close>, and the serializer of \<open>URLSearchParams\<close>
  encodes the percent sign again.
\<close>

theorem C8_path_encoded_twice:
  \<open>parseXrayConfig
     (example_platform
        (js ''{"outbounds":[{"protocol":"vless","settings":{"vnext":[{"address":"h","port":443,"users":[{"id":"u1"}]}]},"streamSettings":{"network":"ws","wsSettings":{"path":"/ws"}}}]}'')
        (JObj [(js ''outbounds'', JArr [JObj
           [(js ''protocol'', JStr (js ''vless'')),
            (js ''settings'', JObj [(js ''vnext'', JArr [JObj
               [(js ''address'', JStr (js ''h'')),
                (js ''port'', JNum 443),
                (js ''users'', JArr [JObj [(js ''id'', JStr (js ''u1''))]])]])]),
            (js ''streamSettings'', JObj
               [(js ''network'', JStr (js ''ws'')),
                (js ''wsSettings'', JObj [(js ''path'', JStr (js ''/ws''))])])]])]))
     (js ''{"outbounds":[{"protocol":"vless","settings":{"vnext":[{"address":"h","port":443,"users":[{"id":"u1"}]}]},"streamSettings":{"network":"ws","wsSettings":{"path":"/ws"}}}]}'')
   = [js ''vless://u1@h:443?type=ws&security=none&path=%252Fws&host=&flow=&encryption=none#imported-node'']
   \<and> encodeURIComponent (js ''/ws'') = Inr (js ''%2Fws'')\<close>
  by (simp add: import_eval json_eval url_eval js_def)

section \<open>The Admin API\<close>

text \<open>
  Claim C10: for two stores whose CONFIG values are objects that differ only in the
  value of a set, non-empty password, the successful \<open>getConfig\<close> responses (each request
  carrying its store's password as bearer token) are identical; the \<open>data\<close> of the
  response is the configuration without its password property, and \<open>isConfigured\<close> is
  true.
\<close>

theorem C10_getConfig_omits_password:
  assumes "kv1 (js ''CONFIG'') = Some configStr1" and "configStr1 \<noteq> []"
    and "JSON_parse P configStr1 = Inr (JObj props1)"
    and "map_of props1 (js ''password'') = Some (JStr password1)" and "password1 \<noteq> []"
    and "req_authorization req1 = Some (js ''Bearer '' @ password1)"
    and "req_method req1 = js ''POST'' \<longrightarrow> (\<exists>b. req_json req1 = Inr b)"
    and "kv2 (js ''CONFIG'') = Some configStr2" and "configStr2 \<noteq> []"
    and "JSON_parse P configStr2 = Inr (JObj props2)"
    and "map_of props2 (js ''password'') = Some (JStr password2)" and "password2 \<noteq> []"
    and "req_authorization req2 = Some (js ''Bearer '' @ password2)"
    and "req_method req2 = js ''POST'' \<longrightarrow> (\<exists>b. req_json req2 = Inr b)"
    and "filter (\<lambda>kv. fst kv \<noteq> js ''password'') props1
         = filter (\<lambda>kv. fst kv \<noteq> js ''password'') props2"
  shows "handleAdminApi_getConfig P kv1 req1 = handleAdminApi_getConfig P kv2 req2
       \<and> handleAdminApi_getConfig P kv1 req1 =
           Inr (json_response 200
                  (JObj [(js ''success'', JBool True),
                         (js ''data'', JObj (filter (\<lambda>kv. fst kv \<noteq> js ''password'') props1)),
                         (js ''isConfigured'', JBool True)]))
       \<and> opt_prop (JObj (filter (\<lambda>kv. fst kv \<noteq> js ''password'') props1)) (js ''password'')
           = JUndefined"
proof -
  have n: "map_of (filter (\<lambda>kv. fst kv \<noteq> js ''password'') props1) (js ''password'') = None"
    by (induction props1) auto
  show ?thesis
    using getConfig_authorized[of kv1 configStr1 P props1 password1 req1, OF assms(1-7)]
      getConfig_authorized[of kv2 configStr2 P props2 password2 req2, OF assms(8-14)] assms(15) n
    by simp
qed

theorem C10_getConfig_omits_password_witness:
  \<open>handleAdminApi_getConfig
     (example_platform2
        (js ''{"password":"pw1","subPath":"sub","adminPath":"admin"}'')
        (JObj [(js ''password'', JStr (js ''pw1'')), (js ''subPath'', JStr (js ''sub'')),
               (js ''adminPath'', JStr (js ''admin''))])
        (js ''{"password":"pw2","subPath":"sub","adminPath":"admin"}'')
        (JObj [(js ''password'', JStr (js ''pw2'')), (js ''subPath'', JStr (js ''sub'')),
               (js ''adminPath'', JStr (js ''admin''))]))
     [js ''CONFIG'' \<mapsto> js ''{"password":"pw1","subPath":"sub","adminPath":"admin"}'']
     \<lparr>req_method = js ''GET'', req_pathname = js ''/admin/api/getConfig'',
      req_authorization = Some (js ''Bearer pw1''), req_json = Inl SyntaxError\<rparr>
   = handleAdminApi_getConfig
     (example_platform2
        (js ''{"password":"pw1","subPath":"sub","adminPath":"admin"}'')
        (JObj [(js ''password'', JStr (js ''pw1'')), (js ''subPath'', JStr (js ''sub'')),
               (js ''adminPath'', JStr (js ''admin''))])
        (js ''{"password":"pw2","subPath":"sub","adminPath":"admin"}'')
        (JObj [(js ''password'', JStr (js ''pw2'')), (js ''subPath'', JStr (js ''sub'')),
               (js ''adminPath'', JStr (js ''admin''))]))
     [js ''CONFIG'' \<mapsto> js ''{"password":"pw2","subPath":"sub","adminPath":"admin"}'']
     \<lparr>req_method = js ''POST'', req_pathname = js ''/admin/api/getConfig'',
      req_authorization = Some (js ''Bearer pw2''), req_json = Inr (JObj [])\<rparr>
   \<and> handleAdminApi_getConfig
     (example_platform2
        (js ''{"password":"pw1","subPath":"sub","adminPath":"admin"}'')
        (JObj [(js ''password'', JStr (js ''pw1'')), (js ''subPath'', JStr (js ''sub'')),
               (js ''adminPath'', JStr (js ''admin''))])
        (js ''{"password":"pw2","subPath":"sub","adminPath":"admin"}'')
        (JObj [(js ''password'', JStr (js ''pw2'')), (js ''subPath'', JStr (js ''sub'')),
               (js ''adminPath'', JStr (js ''admin''))]))
     [js ''CONFIG'' \<mapsto> js ''{"password":"pw1","subPath":"sub","adminPath":"admin"}'']
     \<lparr>req_method = js ''GET'', req_pathname = js ''/admin/api/getConfig'',
      req_authorization = Some (js ''Bearer pw1''), req_json = Inl SyntaxError\<rparr>
   = Inr \<lparr>status = 200,
          body = js ''{"success":true,"data":{"subPath":"sub","adminPath":"admin"},"isConfigured":true}'',
          headers = [(js ''Content-Type'', js ''application/json'')]\<rparr>\<close>
proof -
  let ?t1 = \<open>js ''{"password":"pw1","subPath":"sub","adminPath":"admin"}''\<close>
  let ?t2 = \<open>js ''{"password":"pw2","subPath":"sub","adminPath":"admin"}''\<close>
  let ?o1 = "[(js ''password'', JStr (js ''pw1'')), (js ''subPath'', JStr (js ''sub'')),
               (js ''adminPath'', JStr (js ''admin''))]"
  let ?o2 = "[(js ''password'', JStr (js ''pw2'')), (js ''subPath'', JStr (js ''sub'')),
               (js ''adminPath'', JStr (js ''admin''))]"
  let ?P = "example_platform2 ?t1 (JObj ?o1) ?t2 (JObj ?o2)"
  let ?kv1 = "[js ''CONFIG'' \<mapsto> ?t1]"
  let ?kv2 = "[js ''CONFIG'' \<mapsto> ?t2]"
  let ?r1 = "\<lparr>req_method = js ''GET'', req_pathname = js ''/admin/api/getConfig'',
      req_authorization = Some (js ''Bearer pw1''), req_json = Inl SyntaxError\<rparr>"
  let ?r2 = "\<lparr>req_method = js ''POST'', req_pathname = js ''/admin/api/getConfig'',
      req_authorization = Some (js ''Bearer pw2''), req_json = Inr (JObj [])\<rparr>"
  have k1: "?kv1 (js ''CONFIG'') = Some ?t1" and k2: "?kv2 (js ''CONFIG'') = Some ?t2" by simp_all
  have n1: "?t1 \<noteq> []" and n2: "?t2 \<noteq> []" by (simp_all add: js_def)
  have p1: "JSON_parse ?P ?t1 = Inr (JObj ?o1)" by (simp add: example_platform2_def)
  have p2: "JSON_parse ?P ?t2 = Inr (JObj ?o2)" by (simp add: example_platform2_def js_def)
  have m1: "map_of ?o1 (js ''password'') = Some (JStr (js ''pw1''))"
    and m2: "map_of ?o2 (js ''password'') = Some (JStr (js ''pw2''))" by simp_all
  have e1: "js ''pw1'' \<noteq> []" and e2: "js ''pw2'' \<noteq> []" by (simp_all add: js_def)
  have a1: "req_authorization ?r1 = Some (js ''Bearer '' @ js ''pw1'')"
    and a2: "req_authorization ?r2 = Some (js ''Bearer '' @ js ''pw2'')" by (simp_all add: js_def)
  have b1: "req_method ?r1 = js ''POST'' \<longrightarrow> (\<exists>b. req_json ?r1 = Inr b)"
    and b2: "req_method ?r2 = js ''POST'' \<longrightarrow> (\<exists>b. req_json ?r2 = Inr b)"
    by (simp_all add: js_def)
  have f: "filter (\<lambda>kv. fst kv \<noteq> js ''password'') ?o1 = filter (\<lambda>kv. fst kv \<noteq> js ''password'') ?o2"
    by (simp add: js_def)
  have f1: "filter (\<lambda>kv. fst kv \<noteq> js ''password'') ?o1
      = [(js ''subPath'', JStr (js ''sub'')), (js ''adminPath'', JStr (js ''admin''))]"
    by (simp add: js_def)
  have r: \<open>json_response 200
            (JObj [(js ''success'', JBool True),
                   (js ''data'', JObj [(js ''subPath'', JStr (js ''sub'')), (js ''adminPath'', JStr (js ''admin''))]),
                   (js ''isConfigured'', JBool True)])
      = \<lparr>status = 200,
          body = js ''{"success":true,"data":{"subPath":"sub","adminPath":"admin"},"isConfigured":true}'',
          headers = [(js ''Content-Type'', js ''application/json'')]\<rparr>\<close>
    by (simp add: json_response_def JSON_quote_def is_high_def is_low_def js_def)
  note c = C10_getConfig_omits_password[of ?kv1 ?t1 ?P ?o1 "js ''pw1''" ?r1 ?kv2 ?t2 ?o2 "js ''pw2''" ?r2,
      OF k1 n1 p1 m1 e1 a1 b1 k2 n2 p2 m2 e2 a2 b2 f]
  from c have eq: "handleAdminApi_getConfig ?P ?kv1 ?r1 = handleAdminApi_getConfig ?P ?kv2 ?r2"
    by (rule conjunct1)
  from c have v: "handleAdminApi_getConfig ?P ?kv1 ?r1 =
           Inr (json_response 200
                  (JObj [(js ''success'', JBool True),
                         (js ''data'', JObj (filter (\<lambda>kv. fst kv \<noteq> js ''password'') ?o1)),
                         (js ''isConfigured'', JBool True)]))"
    by (elim conjE)
  have v': \<open>handleAdminApi_getConfig ?P ?kv1 ?r1 = Inr \<lparr>status = 200,
          body = js ''{"success":true,"data":{"subPath":"sub","adminPath":"admin"},"isConfigured":true}'',
          headers = [(js ''Content-Type'', js ''application/json'')]\<rparr>\<close>
    using v unfolding f1 r .
  show ?thesis using eq v' by (rule conjI)
qed

end
